theory Spec2Isabelle
  imports
    Main
    "HOL-Library.Word"
    "HOL-Library.Signed_Division"
    "HOL-Library.Multiset"
    "HOL-Library.Char_ord"
    "HOL-Library.List_Lexorder"
begin

section \<open>Machine integers\<close>

text \<open>
  Go's \<open>int\<close> is taken at its width on 64-bit platforms; \<open>uint32\<close> and \<open>uint64\<close> are the
  widths of the protobuf counters. Addition wraps. Go's integer division truncates towards
  zero, which is \<open>sdiv\<close> on the signed reading.
\<close>

type_synonym go_int = "64 word"
type_synonym uint32 = "32 word"
type_synonym uint64 = "64 word"

definition go_div :: "go_int \<Rightarrow> go_int \<Rightarrow> go_int" where
  "go_div a b = word_of_int (sint a sdiv sint b)"

definition go_gt :: "go_int \<Rightarrow> go_int \<Rightarrow> bool" where
  "go_gt a b = (b <s a)"

section \<open>Errors and panics\<close>

text \<open>
  A Go \<open>error\<close> value is \<open>error option\<close>, \<open>None\<close> being \<open>nil\<close>. \<open>Errorf\<close> is
  \<open>fmt.Errorf\<close> with a \<open>%w\<close> verb: it wraps its cause, which may be nil.
  \<open>ResponseError\<close> is an error of the storage service, with its error code. A panic is a
  result of its own.
\<close>

datatype error =
    ErrDoesNotExist
  | ErrVersionDoesNotMatch
  | Canceled
  | DeadlineExceeded
  | ResponseError string
  | Errorf string "error option"

datatype panic = NilPointerDereference

section \<open>The protobuf messages and their store\<close>

text \<open>
  \<open>tempopb.SearchMetrics\<close> is declared outside the sources at hand. Its field widths are
  those of the conversions in \<open>newSearchProgress\<close> (\<open>uint32\<close> for the block and job totals,
  \<open>uint64\<close> for the byte total) and of the protobuf schema for the other three counters
  (\<open>uint32 inspectedTraces\<close>, \<open>uint64 inspectedBytes\<close>, \<open>uint32 completedJobs\<close>).
\<close>

record SearchMetrics =
  InspectedTraces :: uint32
  InspectedBytes :: uint64
  TotalBlocks :: uint32
  CompletedJobs :: uint32
  TotalJobs :: uint32
  TotalBlockBytes :: uint64

text \<open>
  The sink holds its metrics behind a pointer and updates them in place, and \<open>result\<close>
  hands out a pointer to a metrics object as well, so the \<open>SearchMetrics\<close> objects live in
  an explicit store: an address is an index, allocation appends, and an address that was
  never allocated reads as \<open>None\<close>.
\<close>

type_synonym addr = nat
type_synonym heap = "SearchMetrics list"

definition deref :: "heap \<Rightarrow> addr \<Rightarrow> SearchMetrics option" where
  "deref h a = (if a < length h then Some (h ! a) else None)"

definition alloc :: "heap \<Rightarrow> SearchMetrics \<Rightarrow> addr \<times> heap" where
  "alloc h m = (length h, h @ [m])"

text \<open>
  Modelled from the spec: \<open>tempopb.TraceSearchMetadata\<close> is declared outside the sources
  at hand. The spec calls it a distinct-trace metadata record with a trace identifier and an
  otherwise opaque payload; the payload is the type parameter.
\<close>

record 'p TraceSearchMetadata =
  TraceID :: string
  detail :: 'p

record 'p SearchResponse =
  Traces :: "'p TraceSearchMetadata list"
  Metrics :: "addr option"

section \<open>The result combiner\<close>

text \<open>
  Modelled from the spec: \<open>traceql.MetadataCombiner\<close> (\<open>NewMetadataCombiner\<close>,
  \<open>AddMetadata\<close>, \<open>Count\<close>, \<open>Metadata\<close>) is not among the sources at hand. The spec (4.2)
  asks that adding a record whose trace identifier is already present merges it into the
  existing one and never duplicates it, that the merge is commutative and associative, that
  the count is the number of distinct identifiers, and that the entries come in a
  deterministic order given by a sort key. Here the entries are kept sorted by trace
  identifier, and two records of one trace merge by the join of a semilattice on the
  payload (the richer record wins), which is commutative and associative.
\<close>

type_synonym 'p MetadataCombiner = "'p TraceSearchMetadata list"

definition NewMetadataCombiner :: "'p MetadataCombiner" where
  "NewMetadataCombiner = []"

fun AddMetadata ::
  "('p::semilattice_sup) TraceSearchMetadata \<Rightarrow> 'p MetadataCombiner \<Rightarrow> 'p MetadataCombiner"
where
  "AddMetadata new [] = [new]"
| "AddMetadata new (e # es) =
     (if TraceID new = TraceID e then e\<lparr>detail := sup (detail e) (detail new)\<rparr> # es
      else if TraceID new < TraceID e then new # e # es
      else e # AddMetadata new es)"

definition Count :: "'p MetadataCombiner \<Rightarrow> go_int" where
  "Count c = word_of_nat (length c)"

definition Metadata :: "'p MetadataCombiner \<Rightarrow> 'p TraceSearchMetadata list" where
  "Metadata c = c"

section \<open>The progress sink\<close>

text \<open>
  \<open>shardedSearchResults\<close> is the snapshot. Its \<open>response\<close> is a freshly built
  \<open>SearchResponse\<close>, whose \<open>Metrics\<close> is a pointer into the store.
\<close>

record 'p shardedSearchResults =
  response :: "'p SearchResponse"
  statusCode :: go_int
  statusMsg :: string
  err :: "error option"
  finishedRequests :: go_int

text \<open>
  \<open>searchProgress\<close>: every method holds the mutex from entry to return, so the methods are
  steps of a sequential state machine. \<open>ctx\<close> is what \<open>ctx.Err()\<close> returns at the time of
  the call: \<open>None\<close> until the context is cancelled or its deadline passes.
\<close>

record 'p searchProgress =
  err :: "error option"
  statusCode :: go_int
  statusMsg :: string
  ctx :: "error option"
  resultsCombiner :: "'p MetadataCombiner"
  resultsMetrics :: addr
  finishedRequests :: go_int
  limit :: go_int

type_synonym 'p world = "heap \<times> 'p searchProgress"

definition StatusOK :: go_int where
  "StatusOK = 200"

definition newSearchProgress ::
  "heap \<Rightarrow> error option \<Rightarrow> go_int \<Rightarrow> go_int \<Rightarrow> go_int \<Rightarrow> go_int \<Rightarrow> 'p world"
where
  "newSearchProgress h c lim totalJobs totalBlocks totalBlockBytes =
     (let (a, h') = alloc h
            \<lparr>InspectedTraces = 0, InspectedBytes = 0,
             TotalBlocks = ucast totalBlocks, CompletedJobs = 0,
             TotalJobs = ucast totalJobs, TotalBlockBytes = ucast totalBlockBytes\<rparr>
      in (h', \<lparr>searchProgress.err = None, searchProgress.statusCode = StatusOK,
               searchProgress.statusMsg = [], ctx = c,
               resultsCombiner = NewMetadataCombiner, resultsMetrics = a,
               searchProgress.finishedRequests = 0, limit = lim\<rparr>))"

definition setStatus :: "'p searchProgress \<Rightarrow> go_int \<Rightarrow> string \<Rightarrow> 'p searchProgress" where
  "setStatus r code msg = r\<lparr>searchProgress.statusCode := code, searchProgress.statusMsg := msg\<rparr>"

definition setError :: "'p searchProgress \<Rightarrow> error option \<Rightarrow> 'p searchProgress" where
  "setError r e = r\<lparr>searchProgress.err := e\<rparr>"

text \<open>
  The three updates of \<open>addResponse\<close> on the metrics, one statement after the other, each
  reading the store as the statement before left it. \<open>None\<close> is a nil dereference.
\<close>

definition addMetrics :: "heap \<Rightarrow> addr \<Rightarrow> addr \<Rightarrow> heap option" where
  "addMetrics h a b =
     (case (deref h a, deref h b) of
        (Some m, Some s) \<Rightarrow>
          (let h1 = h[a := m\<lparr>InspectedBytes := InspectedBytes m + InspectedBytes s\<rparr>] in
           case (deref h1 a, deref h1 b) of
             (Some m1, Some s1) \<Rightarrow>
               (let h2 = h1[a := m1\<lparr>InspectedTraces := InspectedTraces m1 + InspectedTraces s1\<rparr>] in
                case deref h2 a of
                  Some m2 \<Rightarrow> Some (h2[a := m2\<lparr>CompletedJobs := CompletedJobs m2 + 1\<rparr>])
                | None \<Rightarrow> None)
           | _ \<Rightarrow> None)
      | _ \<Rightarrow> None)"

fun addResponse ::
  "('p::semilattice_sup) world \<Rightarrow> 'p SearchResponse option \<Rightarrow> (panic \<times> 'p world) + 'p world"
where
  "addResponse (h, r) None = Inl (NilPointerDereference, (h, r))"
| "addResponse (h, r) (Some res) =
     (let r1 = r\<lparr>resultsCombiner := fold AddMetadata (Traces res) (resultsCombiner r)\<rparr> in
      case Metrics res of
        None \<Rightarrow> Inl (NilPointerDereference, (h, r1))
      | Some b \<Rightarrow>
          (case addMetrics h (resultsMetrics r1) b of
             None \<Rightarrow> Inl (NilPointerDereference, (h, r1))
           | Some h' \<Rightarrow>
               Inr (h', r1\<lparr>searchProgress.finishedRequests :=
                              searchProgress.finishedRequests r1 + 1\<rparr>)))"

definition internalShouldQuit :: "'p searchProgress \<Rightarrow> bool" where
  "internalShouldQuit r =
     (if searchProgress.err r \<noteq> None then True
      else if ctx r \<noteq> None then True
      else if go_div (searchProgress.statusCode r) 100 \<noteq> 2 then True
      else if go_gt (Count (resultsCombiner r)) (limit r) then True
      else False)"

definition shouldQuit :: "'p searchProgress \<Rightarrow> bool" where
  "shouldQuit r = internalShouldQuit r"

definition result ::
  "'p world \<Rightarrow> (panic \<times> 'p world) + (heap \<times> 'p shardedSearchResults)"
where
  "result w =
     (case w of (h, r) \<Rightarrow>
        (case deref h (resultsMetrics r) of
           None \<Rightarrow> Inl (NilPointerDereference, (h, r))
         | Some m \<Rightarrow>
             (let (a, h') = alloc h
                    \<lparr>InspectedTraces = InspectedTraces m, InspectedBytes = InspectedBytes m,
                     TotalBlocks = TotalBlocks m, CompletedJobs = CompletedJobs m,
                     TotalJobs = TotalJobs m, TotalBlockBytes = TotalBlockBytes m\<rparr>
              in Inr (h', \<lparr>response = \<lparr>Traces = Metadata (resultsCombiner r), Metrics = Some a\<rparr>,
                           shardedSearchResults.statusCode = searchProgress.statusCode r,
                           shardedSearchResults.statusMsg = searchProgress.statusMsg r,
                           shardedSearchResults.err = searchProgress.err r,
                           shardedSearchResults.finishedRequests =
                             searchProgress.finishedRequests r\<rparr>))))"

text \<open>
  A caller's use of a sink is a sequence of calls. The run stops at the first panic and
  keeps the state the panic left behind. The metrics objects of the partial results are
  objects of the store the sink is built in; what \<open>shouldQuit\<close> and \<open>result\<close> return
  is dropped here and read by the functions themselves.
\<close>

datatype 'p call =
    SetStatus go_int string
  | SetError "error option"
  | AddResponse "'p SearchResponse option"
  | ShouldQuit
  | Result

fun step :: "('p::semilattice_sup) call \<Rightarrow> 'p world \<Rightarrow> (panic \<times> 'p world) + 'p world" where
  "step (SetStatus code msg) (h, r) = Inr (h, setStatus r code msg)"
| "step (SetError e) (h, r) = Inr (h, setError r e)"
| "step (AddResponse res) (h, r) = addResponse (h, r) res"
| "step ShouldQuit (h, r) = Inr (h, r)"
| "step Result (h, r) =
     (case result (h, r) of Inl p \<Rightarrow> Inl p | Inr (h', s) \<Rightarrow> Inr (h', r))"

fun run :: "('p::semilattice_sup) call list \<Rightarrow> 'p world \<Rightarrow> (panic \<times> 'p world) + 'p world" where
  "run [] w = Inr w"
| "run (c # cs) w = (case step c w of Inl p \<Rightarrow> Inl p | Inr w' \<Rightarrow> run cs w')"

section \<open>Reading the outcome of a run\<close>

text \<open>
  The world a run ends in, whether it returned or panicked; the calls that are
  \<open>addResponse\<close>; the calls that cannot panic in a given store (an \<open>addResponse\<close> whose
  argument and whose \<open>Metrics\<close> are not nil and point at an allocated object).
\<close>

definition outcome_world :: "(panic \<times> 'p world) + 'p world \<Rightarrow> 'p world" where
  "outcome_world out = (case out of Inl (p, w) \<Rightarrow> w | Inr w \<Rightarrow> w)"

fun isAddResponse :: "'p call \<Rightarrow> bool" where
  "isAddResponse (AddResponse res) = True"
| "isAddResponse c = False"

fun valid_call :: "heap \<Rightarrow> 'p call \<Rightarrow> bool" where
  "valid_call h (AddResponse None) = False"
| "valid_call h (AddResponse (Some res)) =
     (case Metrics res of None \<Rightarrow> False | Some b \<Rightarrow> b < length h)"
| "valid_call h c = True"

text \<open>What one call keeps, whether it returns or panics.\<close>

definition kept :: "'p world \<Rightarrow> 'p world \<Rightarrow> bool" where
  "kept w w' \<longleftrightarrow>
     (case (w, w') of ((h, r), (h', r')) \<Rightarrow>
        resultsMetrics r' = resultsMetrics r \<and> limit r' = limit r \<and> ctx r' = ctx r
        \<and> length h \<le> length h'
        \<and> (\<forall>c < length h. c \<noteq> resultsMetrics r \<longrightarrow> h' ! c = h ! c)
        \<and> TotalJobs (h' ! resultsMetrics r) = TotalJobs (h ! resultsMetrics r)
        \<and> TotalBlocks (h' ! resultsMetrics r) = TotalBlocks (h ! resultsMetrics r)
        \<and> TotalBlockBytes (h' ! resultsMetrics r) = TotalBlockBytes (h ! resultsMetrics r))"

text \<open>
  What a caller reads through a snapshot: the snapshot record itself and the metrics object
  its pointer leads to in the store of that moment. \<open>snapshotAfter\<close> is the snapshot that
  \<open>result\<close> gives after a run that returned, read in the store \<open>result\<close> leaves.
\<close>

definition readSnapshot ::
  "heap \<Rightarrow> 'p shardedSearchResults \<Rightarrow> 'p shardedSearchResults \<times> SearchMetrics option" where
  "readSnapshot h s = (s, case Metrics (response s) of None \<Rightarrow> None | Some a \<Rightarrow> deref h a)"

definition snapshotAfter ::
  "(panic \<times> 'p world) + 'p world \<Rightarrow> ('p shardedSearchResults \<times> SearchMetrics) option" where
  "snapshotAfter out =
     (case out of
        Inl pw \<Rightarrow> None
      | Inr w \<Rightarrow>
          (case result w of
             Inl pw \<Rightarrow> None
           | Inr (h', s) \<Rightarrow>
               (case snd (readSnapshot h' s) of None \<Rightarrow> None | Some m \<Rightarrow> Some (s, m))))"

definition counters :: "'p shardedSearchResults \<times> SearchMetrics \<Rightarrow> int \<times> nat" where
  "counters sm = (sint (shardedSearchResults.finishedRequests (fst sm)), unat (CompletedJobs (snd sm)))"

definition planTotals :: "'p shardedSearchResults \<times> SearchMetrics \<Rightarrow> int \<times> int \<times> int" where
  "planTotals sm =
     (uint (TotalJobs (snd sm)), uint (TotalBlocks (snd sm)), uint (TotalBlockBytes (snd sm)))"

section \<open>Example values\<close>

text \<open>
  The metrics object of a finished job (its own totals are 9), a store holding two of them,
  a sink built over that store with limit 3 and plan totals 2, 2 and 1000, the two partial
  results of the spec's scenario A, and a snapshot of the fresh sink.
\<close>

definition jobMetrics :: SearchMetrics where
  "jobMetrics = \<lparr>InspectedTraces = 5, InspectedBytes = 100, TotalBlocks = 9,
                  CompletedJobs = 0, TotalJobs = 9, TotalBlockBytes = 9\<rparr>"

definition exampleSink :: "nat world" where
  "exampleSink = newSearchProgress [jobMetrics, jobMetrics] None 3 2 2 1000"

definition job1 :: "nat SearchResponse" where
  "job1 = \<lparr>Traces = [\<lparr>TraceID = ''A'', detail = 1\<rparr>, \<lparr>TraceID = ''B'', detail = 1\<rparr>],
           Metrics = Some 0\<rparr>"

definition job2 :: "nat SearchResponse" where
  "job2 = \<lparr>Traces = [\<lparr>TraceID = ''D'', detail = 1\<rparr>, \<lparr>TraceID = ''C'', detail = 1\<rparr>],
           Metrics = Some 1\<rparr>"

definition exampleSnapshot :: "heap \<times> nat shardedSearchResults" where
  "exampleSnapshot = projr (result exampleSink)"

section \<open>Merging as a total function\<close>

text \<open>
  \<open>absorb\<close> is the world \<open>addResponse\<close> ends in. \<open>apart a n w\<close> says that the sink's
  metrics sit at address \<open>a\<close> of a store of \<open>n\<close> objects, and \<open>jobOf a sr\<close> that the
  partial result's metrics are not nil and sit below \<open>a\<close>, so apart from the sink's.
\<close>

definition absorb :: "('p::semilattice_sup) SearchResponse \<Rightarrow> 'p world \<Rightarrow> 'p world" where
  "absorb sr w = outcome_world (addResponse w (Some sr))"

definition apart :: "addr \<Rightarrow> nat \<Rightarrow> 'p world \<Rightarrow> bool" where
  "apart a n w \<longleftrightarrow> resultsMetrics (snd w) = a \<and> a < n \<and> length (fst w) = n"

definition jobOf :: "addr \<Rightarrow> 'p SearchResponse \<Rightarrow> bool" where
  "jobOf a sr \<longleftrightarrow> (case Metrics sr of None \<Rightarrow> False | Some b \<Rightarrow> b < a)"

text \<open>A third partial result: it shares trace \<open>B\<close> with \<open>job1\<close>, with a richer payload.\<close>

definition job3 :: "nat SearchResponse" where
  "job3 = \<lparr>Traces = [\<lparr>TraceID = ''C'', detail = 1\<rparr>, \<lparr>TraceID = ''B'', detail = 2\<rparr>],
           Metrics = Some 1\<rparr>"

section \<open>The versioned write of the Azure backend\<close>

text \<open>
  \<open>errors.Is\<close> follows the chain of wrapped causes; \<open>bloberror.HasCode\<close> finds a service
  error in that chain and compares its code.
\<close>

fun errorsIs :: "error \<Rightarrow> error \<Rightarrow> bool" where
  "errorsIs (Errorf msg w) target =
     (Errorf msg w = target \<or> (case w of None \<Rightarrow> False | Some e \<Rightarrow> errorsIs e target))"
| "errorsIs e target = (e = target)"

definition errors_Is :: "error option \<Rightarrow> error \<Rightarrow> bool" where
  "errors_Is er target = (case er of None \<Rightarrow> False | Some e \<Rightarrow> errorsIs e target)"

fun hasCode :: "error \<Rightarrow> string \<Rightarrow> bool" where
  "hasCode (ResponseError c) code = (c = code)"
| "hasCode (Errorf msg w) code = (case w of None \<Rightarrow> False | Some e \<Rightarrow> hasCode e code)"
| "hasCode e code = False"

definition HasCode :: "error option \<Rightarrow> string \<Rightarrow> bool" where
  "HasCode er code = (case er of None \<Rightarrow> False | Some e \<Rightarrow> hasCode e code)"

text \<open>
  \<open>backend.VersionNew\<close>, \<open>backend.KeyPathWithPrefix\<close> and \<open>backend.ObjectFileName\<close> are
  declared outside the sources at hand, so they are parameters of the model, collected in
  the record \<open>backend\<close>: the version token of an object that does not exist yet, the
  function that puts the configured prefix in front of a key path, and the function that
  names the object of a key path and a file name. \<open>bloberror.BlobNotFound\<close> is the
  service's error code of that name.
\<close>

type_synonym bytes = "8 word list"

type_synonym Version = string

type_synonym KeyPath = "string list"

definition ErrorCodeBlobNotFound :: string where
  "ErrorCodeBlobNotFound = ''BlobNotFound''"

record backend =
  VersionNew :: Version
  KeyPathWithPrefix :: "KeyPath \<Rightarrow> string \<Rightarrow> KeyPath"
  ObjectFileName :: "KeyPath \<Rightarrow> string \<Rightarrow> string"

text \<open>
  The blob container is the state of the storage service, outside the repository. It holds
  the blobs by name. Each request first takes the next entry of \<open>script\<close>: \<open>Some e\<close> makes
  the request fail with \<open>e\<close> and change nothing (a network error, a cancelled context, any
  service error), \<open>None\<close> or an exhausted script lets the service answer. An upload stamps
  the blob with an ETag the container never gave before.
\<close>

record blob =
  content :: bytes
  etag :: "string option"

record properties =
  ContentLength :: "nat option"
  ETag :: "string option"

record container =
  blobs :: "string \<rightharpoonup> blob"
  script :: "error option list"
  stamp :: nat

definition etagOf :: "nat \<Rightarrow> string" where
  "etagOf n = ''0x'' @ replicate (Suc n) (CHR ''1'')"

definition request :: "container \<Rightarrow> error option \<times> container" where
  "request s = (case script s of [] \<Rightarrow> (None, s) | f # fs \<Rightarrow> (f, s\<lparr>script := fs\<rparr>))"

definition GetProperties :: "container \<Rightarrow> string \<Rightarrow> (error + properties) \<times> container" where
  "GetProperties s name =
     (case request s of
        (Some e, s1) \<Rightarrow> (Inl e, s1)
      | (None, s1) \<Rightarrow>
          (case blobs s1 name of
             None \<Rightarrow> (Inl (ResponseError ErrorCodeBlobNotFound), s1)
           | Some b \<Rightarrow> (Inr \<lparr>ContentLength = Some (length (content b)), ETag = etag b\<rparr>, s1)))"

definition DownloadBuffer ::
  "container \<Rightarrow> string \<Rightarrow> nat \<Rightarrow> nat \<Rightarrow> (error + bytes) \<times> container" where
  "DownloadBuffer s name offset cnt =
     (case request s of
        (Some e, s1) \<Rightarrow> (Inl e, s1)
      | (None, s1) \<Rightarrow>
          (case blobs s1 name of
             None \<Rightarrow> (Inl (ResponseError ErrorCodeBlobNotFound), s1)
           | Some b \<Rightarrow> (Inr (take cnt (drop offset (content b))), s1)))"

definition UploadStream :: "container \<Rightarrow> string \<Rightarrow> bytes \<Rightarrow> error option \<times> container" where
  "UploadStream s name src =
     (case request s of
        (Some e, s1) \<Rightarrow> (Some e, s1)
      | (None, s1) \<Rightarrow>
          (None, s1\<lparr>blobs := (blobs s1)(name \<mapsto> \<lparr>content = src, etag = Some (etagOf (stamp s1))\<rparr>),
                    stamp := Suc (stamp s1)\<rparr>))"

text \<open>
  The methods of \<open>Azure\<close>. Its two clients, the plain one and the hedged one, address
  the same container. A Go function returning several values returns a tuple here, its
  \<open>error\<close> last, paired with the container it leaves.
\<close>

record Azure =
  Prefix :: string

definition readError :: "error option \<Rightarrow> error option" where
  "readError er =
     (if HasCode er ErrorCodeBlobNotFound then Some ErrDoesNotExist
      else if er \<noteq> None then Some (Errorf ''reading Azure blob container'' er)
      else None)"

definition readAll :: "container \<Rightarrow> string \<Rightarrow> (bytes option \<times> string \<times> error option) \<times> container" where
  "readAll s name =
     (case GetProperties s name of
        (Inl e, s1) \<Rightarrow> ((None, [], Some e), s1)
      | (Inr props, s1) \<Rightarrow>
          (case ContentLength props of
             None \<Rightarrow>
               ((None, [], Some (Errorf ''expected content length but got none for blob'' None)), s1)
           | Some n \<Rightarrow>
               (case DownloadBuffer s1 name 0 n of
                  (Inl e, s2) \<Rightarrow> ((None, [], Some e), s2)
                | (Inr destBuffer, s2) \<Rightarrow>
                    ((Some destBuffer, (case ETag props of None \<Rightarrow> [] | Some t \<Rightarrow> t), None), s2))))"

definition ReadVersioned ::
  "backend \<Rightarrow> Azure \<Rightarrow> container \<Rightarrow> string \<Rightarrow> KeyPath
   \<Rightarrow> (bytes option \<times> Version \<times> error option) \<times> container" where
  "ReadVersioned bk rw s name keypath =
     (let keypath' = KeyPathWithPrefix bk keypath (Prefix rw);
          object = ObjectFileName bk keypath' name
      in case readAll s object of
           ((b, t, Some e), s1) \<Rightarrow> ((None, [], readError (Some e)), s1)
         | ((b, t, None), s1) \<Rightarrow> ((b, t, None), s1))"

definition writer :: "container \<Rightarrow> bytes \<Rightarrow> string \<Rightarrow> error option \<times> container" where
  "writer s src name =
     (case UploadStream s name src of
        (Some e, s1) \<Rightarrow> (Some (Errorf ''cannot upload blob'' (Some e)), s1)
      | (None, s1) \<Rightarrow> (None, s1))"

definition Write ::
  "backend \<Rightarrow> Azure \<Rightarrow> container \<Rightarrow> string \<Rightarrow> KeyPath \<Rightarrow> bytes \<Rightarrow> error option \<times> container" where
  "Write bk rw s name keypath src =
     (let keypath' = KeyPathWithPrefix bk keypath (Prefix rw)
      in writer s src (ObjectFileName bk keypath' name))"

definition WriteVersioned ::
  "backend \<Rightarrow> Azure \<Rightarrow> container \<Rightarrow> string \<Rightarrow> KeyPath \<Rightarrow> bytes \<Rightarrow> Version
   \<Rightarrow> (Version \<times> error option) \<times> container" where
  "WriteVersioned bk rw s name keypath src version =
     (case ReadVersioned bk rw s name keypath of
        ((b, currentVersion, er), s1) \<Rightarrow>
          if er \<noteq> None \<and> \<not> errors_Is er ErrDoesNotExist then (([], er), s1)
          else if errors_Is er ErrDoesNotExist \<and> version \<noteq> VersionNew bk
            then (([], Some ErrVersionDoesNotMatch), s1)
          else if \<not> errors_Is er ErrDoesNotExist \<and> version \<noteq> currentVersion
            then (([], Some ErrVersionDoesNotMatch), s1)
          else
            (case Write bk rw s1 name keypath src of
               (Some e, s2) \<Rightarrow> (([], Some e), s2)
             | (None, s2) \<Rightarrow>
                 (case ReadVersioned bk rw s2 name keypath of
                    ((b', currentVersion', er'), s3) \<Rightarrow> ((currentVersion', er'), s3))))"

text \<open>
  The version a stored blob reads as, the object a key path and a name address, and an
  example: a backend whose token for a new object is \<open>"0"\<close> (the value the comment in
  \<open>WriteVersioned\<close> gives) and whose object names are joined by slashes, and a container
  with one blob at version \<open>v1\<close>, behind the prefix \<open>tenant\<close>.
\<close>

definition versionOf :: "blob \<Rightarrow> Version" where
  "versionOf b = (case etag b of None \<Rightarrow> [] | Some t \<Rightarrow> t)"

definition objectOf :: "backend \<Rightarrow> Azure \<Rightarrow> KeyPath \<Rightarrow> string \<Rightarrow> string" where
  "objectOf bk rw keypath name = ObjectFileName bk (KeyPathWithPrefix bk keypath (Prefix rw)) name"

definition exampleBackend :: backend where
  "exampleBackend =
     \<lparr>VersionNew = ''0'',
      KeyPathWithPrefix = (\<lambda>keypath prefix. if prefix = [] then keypath else prefix # keypath),
      ObjectFileName = (\<lambda>keypath name. concat (map (\<lambda>seg. seg @ ''/'') keypath) @ name)\<rparr>"

definition exampleAzure :: Azure where
  "exampleAzure = \<lparr>Prefix = ''tenant''\<rparr>"

definition exampleContainer :: container where
  "exampleContainer =
     \<lparr>blobs = [''tenant/index/meta.json'' \<mapsto> \<lparr>content = [1, 2], etag = Some ''v1''\<rparr>],
      script = [], stamp = 7\<rparr>"

section \<open>The store and the frame of each call\<close>

lemma addMetrics_Some_iff:
  "(\<exists>h'. addMetrics h a b = Some h') \<longleftrightarrow> a < length h \<and> b < length h"
  by (auto simp: addMetrics_def deref_def Let_def split: option.splits if_splits)

lemma addMetrics_frame:
  assumes "addMetrics h a b = Some h'"
  shows "length h' = length h"
    and "c \<noteq> a \<Longrightarrow> h' ! c = h ! c"
    and "TotalJobs (h' ! a) = TotalJobs (h ! a)"
    and "TotalBlocks (h' ! a) = TotalBlocks (h ! a)"
    and "TotalBlockBytes (h' ! a) = TotalBlockBytes (h ! a)"
    and "CompletedJobs (h' ! a) = CompletedJobs (h ! a) + 1"
  using assms
  by (auto simp: addMetrics_def deref_def Let_def split: option.splits if_splits)

lemma addResponse_frame:
  assumes "outcome_world (addResponse (h, r) res) = (h', r')"
  shows "resultsMetrics r' = resultsMetrics r \<and> limit r' = limit r \<and> ctx r' = ctx r
    \<and> length h' = length h
    \<and> (\<forall>c. c \<noteq> resultsMetrics r \<longrightarrow> h' ! c = h ! c)
    \<and> TotalJobs (h' ! resultsMetrics r) = TotalJobs (h ! resultsMetrics r)
    \<and> TotalBlocks (h' ! resultsMetrics r) = TotalBlocks (h ! resultsMetrics r)
    \<and> TotalBlockBytes (h' ! resultsMetrics r) = TotalBlockBytes (h ! resultsMetrics r)"
proof (cases res)
  case None
  with assms show ?thesis by (simp add: outcome_world_def)
next
  case (Some sr)
  show ?thesis
  proof (cases "Metrics sr")
    case None
    with assms Some show ?thesis by (auto simp: outcome_world_def Let_def)
  next
    case (Some b)
    show ?thesis
    proof (cases "addMetrics h (resultsMetrics r) b")
      case None
      with assms \<open>res = Some sr\<close> \<open>Metrics sr = Some b\<close> show ?thesis
        by (auto simp: outcome_world_def Let_def)
    next
      case (Some h1)
      with assms \<open>res = Some sr\<close> \<open>Metrics sr = Some b\<close>
      have "h' = h1" and "resultsMetrics r' = resultsMetrics r" and "limit r' = limit r"
        and "ctx r' = ctx r"
        by (auto simp: outcome_world_def Let_def)
      with addMetrics_frame [OF Some] show ?thesis by simp
    qed
  qed
qed

lemma result_frame:
  assumes "result (h, r) = Inr (h', s)"
  shows "resultsMetrics r < length h"
    and "h' = h @ [h ! resultsMetrics r]"
    and "Metrics (response s) = Some (length h)"
    and "Traces (response s) = Metadata (resultsCombiner r)"
    and "shardedSearchResults.statusCode s = searchProgress.statusCode r"
    and "shardedSearchResults.statusMsg s = searchProgress.statusMsg r"
    and "shardedSearchResults.err s = searchProgress.err r"
    and "shardedSearchResults.finishedRequests s = searchProgress.finishedRequests r"
  using assms
  by (auto simp: result_def deref_def alloc_def split: if_splits)

lemma result_Inl:
  "result (h, r) = Inl pw \<Longrightarrow> pw = (NilPointerDereference, (h, r)) \<and> \<not> resultsMetrics r < length h"
  by (auto simp: result_def deref_def alloc_def split: if_splits)

lemma result_returns:
  "resultsMetrics r < length h \<Longrightarrow> \<exists>s. result (h, r) = Inr (h @ [h ! resultsMetrics r], s)"
  by (simp add: result_def deref_def alloc_def)

lemma kept_trans:
  assumes "kept w w'" "kept w' w''" "resultsMetrics (snd w) < length (fst w)"
  shows "kept w w''"
proof -
  obtain h r where w: "w = (h, r)" by (cases w)
  obtain h' r' where w': "w' = (h', r')" by (cases w')
  obtain h'' r'' where w'': "w'' = (h'', r'')" by (cases w'')
  from assms(1) w w' have 1: "resultsMetrics r' = resultsMetrics r" "limit r' = limit r"
    "ctx r' = ctx r" "length h \<le> length h'"
    "\<And>c. c < length h \<Longrightarrow> c \<noteq> resultsMetrics r \<Longrightarrow> h' ! c = h ! c"
    "TotalJobs (h' ! resultsMetrics r) = TotalJobs (h ! resultsMetrics r)"
    "TotalBlocks (h' ! resultsMetrics r) = TotalBlocks (h ! resultsMetrics r)"
    "TotalBlockBytes (h' ! resultsMetrics r) = TotalBlockBytes (h ! resultsMetrics r)"
    by (simp_all add: kept_def)
  from assms(2) w' w'' have 2: "resultsMetrics r'' = resultsMetrics r'" "limit r'' = limit r'"
    "ctx r'' = ctx r'" "length h' \<le> length h''"
    "\<And>c. c < length h' \<Longrightarrow> c \<noteq> resultsMetrics r' \<Longrightarrow> h'' ! c = h' ! c"
    "TotalJobs (h'' ! resultsMetrics r') = TotalJobs (h' ! resultsMetrics r')"
    "TotalBlocks (h'' ! resultsMetrics r') = TotalBlocks (h' ! resultsMetrics r')"
    "TotalBlockBytes (h'' ! resultsMetrics r') = TotalBlockBytes (h' ! resultsMetrics r')"
    by (simp_all add: kept_def)
  have "h'' ! c = h ! c" if "c < length h" "c \<noteq> resultsMetrics r" for c
    using that 1(1,4,5) 2(5) [of c] by simp
  with 1 2 show ?thesis
    unfolding w w'' kept_def by simp
qed

lemma step_kept:
  assumes "resultsMetrics r < length h"
  shows "kept (h, r) (outcome_world (step c (h, r)))"
proof (cases c)
  case (SetStatus code msg)
  then show ?thesis by (simp add: outcome_world_def kept_def setStatus_def)
next
  case (SetError e)
  then show ?thesis by (simp add: outcome_world_def kept_def setError_def)
next
  case (AddResponse res)
  obtain h' r' where o: "outcome_world (addResponse (h, r) res) = (h', r')"
    by (cases "outcome_world (addResponse (h, r) res)")
  from addResponse_frame [OF o] AddResponse o show ?thesis
    by (simp add: kept_def)
next
  case ShouldQuit
  then show ?thesis by (simp add: outcome_world_def kept_def)
next
  case Result
  show ?thesis
  proof (cases "result (h, r)")
    case (Inl pw)
    with result_Inl [OF Inl] Result show ?thesis
      by (simp add: outcome_world_def kept_def)
  next
    case (Inr hs)
    obtain h' s where hs: "hs = (h', s)" by (cases hs)
    from result_frame(2) [OF Inr [unfolded hs]] Result Inr hs assms show ?thesis
      by (simp add: outcome_world_def kept_def nth_append)
  qed
qed

lemma run_kept:
  assumes "resultsMetrics r < length h"
  shows "kept (h, r) (outcome_world (run cs (h, r)))"
  using assms
proof (induction cs arbitrary: h r)
  case Nil
  then show ?case by (simp add: outcome_world_def kept_def)
next
  case (Cons c cs)
  show ?case
  proof (cases "step c (h, r)")
    case (Inl pw)
    with step_kept [OF Cons.prems, of c] show ?thesis
      by (simp add: outcome_world_def)
  next
    case (Inr w1)
    obtain h1 r1 where w1: "w1 = (h1, r1)" by (cases w1)
    from step_kept [OF Cons.prems, of c] Inr w1
    have k1: "kept (h, r) (h1, r1)" by (simp add: outcome_world_def)
    then have "resultsMetrics r1 < length h1"
      using Cons.prems by (auto simp: kept_def)
    from Cons.IH [OF this] have "kept (h1, r1) (outcome_world (run cs (h1, r1)))" .
    with k1 Cons.prems have "kept (h, r) (outcome_world (run cs (h1, r1)))"
      using kept_trans [of "(h, r)" "(h1, r1)" "outcome_world (run cs (h1, r1))"] by simp
    with Inr w1 show ?thesis by simp
  qed
qed

lemma newSearchProgress_state:
  "newSearchProgress h0 c lim tj tb tbb = (h, r) \<Longrightarrow>
     resultsMetrics r = length h0 \<and> length h = Suc (length h0)
     \<and> TotalJobs (h ! length h0) = ucast tj \<and> TotalBlocks (h ! length h0) = ucast tb
     \<and> TotalBlockBytes (h ! length h0) = ucast tbb
     \<and> CompletedJobs (h ! length h0) = 0 \<and> searchProgress.finishedRequests r = 0
     \<and> limit r = lim \<and> ctx r = c \<and> searchProgress.err r = None
     \<and> searchProgress.statusCode r = 200 \<and> resultsCombiner r = []"
  by (auto simp: newSearchProgress_def alloc_def StatusOK_def NewMetadataCombiner_def)

lemma run_outcome_totals:
  assumes "outcome_world
      (run cs (newSearchProgress h0 c lim totalJobs totalBlocks totalBlockBytes
         :: ('p::semilattice_sup) world)) = (h1, r1)"
  shows "resultsMetrics r1 = length h0 \<and> length h0 < length h1
    \<and> TotalJobs (h1 ! length h0) = ucast totalJobs
    \<and> TotalBlocks (h1 ! length h0) = ucast totalBlocks
    \<and> TotalBlockBytes (h1 ! length h0) = ucast totalBlockBytes"
proof -
  obtain h r
    where n: "(newSearchProgress h0 c lim totalJobs totalBlocks totalBlockBytes :: 'p world)
                = (h, r)"
    by (cases "newSearchProgress h0 c lim totalJobs totalBlocks totalBlockBytes :: 'p world")
  note s = newSearchProgress_state [OF n]
  from s have v: "resultsMetrics r < length h" by simp
  from run_kept [OF v, of cs] assms n have "kept (h, r) (h1, r1)" by simp
  with s v show ?thesis by (simp add: kept_def)
qed

section \<open>Counting and returning\<close>

lemma step_counts:
  assumes "resultsMetrics r < length h" and "step c (h, r) = Inr (h', r')"
  shows "searchProgress.finishedRequests r' =
           searchProgress.finishedRequests r + (if isAddResponse c then 1 else 0)
       \<and> CompletedJobs (h' ! resultsMetrics r) =
           CompletedJobs (h ! resultsMetrics r) + (if isAddResponse c then 1 else 0)"
proof (cases c)
  case (SetStatus code msg)
  with assms show ?thesis by (auto simp: setStatus_def)
next
  case (SetError e)
  with assms show ?thesis by (auto simp: setError_def)
next
  case (AddResponse res)
  with assms(2) obtain sr b h1 where "res = Some sr" "Metrics sr = Some b"
    and m: "addMetrics h (resultsMetrics r) b = Some h1" and "h' = h1"
    and "searchProgress.finishedRequests r' = searchProgress.finishedRequests r + 1"
    by (cases res) (auto simp: Let_def split: option.splits)
  with addMetrics_frame(6) [OF m] AddResponse show ?thesis by simp
next
  case ShouldQuit
  with assms show ?thesis by auto
next
  case Result
  with assms(2) obtain s where "result (h, r) = Inr (h', s)" and "r' = r"
    by (auto split: sum.splits)
  with result_frame(2) [of h r h' s] assms(1) Result show ?thesis
    by (simp add: nth_append)
qed

lemma run_counts:
  assumes "resultsMetrics r < length h" and "run cs (h, r) = Inr (h', r')"
  shows "searchProgress.finishedRequests r' =
           searchProgress.finishedRequests r + word_of_nat (length (filter isAddResponse cs))
       \<and> CompletedJobs (h' ! resultsMetrics r) =
           CompletedJobs (h ! resultsMetrics r) + word_of_nat (length (filter isAddResponse cs))"
  using assms
proof (induction cs arbitrary: h r)
  case Nil
  then show ?case by simp
next
  case (Cons c cs)
  from Cons.prems(2) obtain h1 r1 where s: "step c (h, r) = Inr (h1, r1)"
    and r: "run cs (h1, r1) = Inr (h', r')"
    by (auto split: sum.splits)
  from step_kept [OF Cons.prems(1), of c] s have k: "kept (h, r) (h1, r1)"
    by (simp add: outcome_world_def)
  with Cons.prems(1) have v: "resultsMetrics r1 < length h1" and e: "resultsMetrics r1 = resultsMetrics r"
    by (auto simp: kept_def)
  from Cons.IH [OF v r] step_counts [OF Cons.prems(1) s] e show ?case
    by (simp add: algebra_simps)
qed

lemma valid_call_mono: "valid_call h c \<Longrightarrow> length h \<le> length h' \<Longrightarrow> valid_call h' c"
  by (induction h c rule: valid_call.induct) (auto split: option.splits)

lemma step_returns:
  assumes "resultsMetrics r < length h" and "valid_call h c"
  shows "\<exists>w'. step c (h, r) = Inr w'"
proof (cases c)
  case (AddResponse res)
  with assms(2) obtain sr b where "res = Some sr" "Metrics sr = Some b" "b < length h"
    by (cases res) (auto split: option.splits)
  with assms(1) addMetrics_Some_iff [of h "resultsMetrics r" b] AddResponse show ?thesis
    by (auto simp: Let_def)
next
  case Result
  with result_returns [OF assms(1)] show ?thesis by auto
qed simp_all

lemma run_returns:
  assumes "resultsMetrics r < length h" and "list_all (valid_call h) cs"
  shows "\<exists>w'. run cs (h, r) = Inr w'"
  using assms
proof (induction cs arbitrary: h r)
  case Nil
  then show ?case by simp
next
  case (Cons c cs)
  from Cons.prems have vc: "valid_call h c" and vcs: "list_all (valid_call h) cs" by simp_all
  from step_returns [OF Cons.prems(1) vc] obtain h1 r1 where s: "step c (h, r) = Inr (h1, r1)"
    by auto
  from step_kept [OF Cons.prems(1), of c] s have k: "kept (h, r) (h1, r1)"
    by (simp add: outcome_world_def)
  with Cons.prems(1) have v: "resultsMetrics r1 < length h1" and l: "length h \<le> length h1"
    by (auto simp: kept_def)
  from vcs l have "list_all (valid_call h1) cs"
    by (auto simp: list_all_iff intro: valid_call_mono)
  from Cons.IH [OF v this] s show ?case by simp
qed

lemma snapshotAfter_Inr:
  assumes "resultsMetrics r < length h"
  shows "\<exists>s. snapshotAfter (Inr (h, r)) = Some (s, h ! resultsMetrics r)
           \<and> shardedSearchResults.finishedRequests s = searchProgress.finishedRequests r
           \<and> shardedSearchResults.err s = searchProgress.err r
           \<and> shardedSearchResults.statusCode s = searchProgress.statusCode r
           \<and> shardedSearchResults.statusMsg s = searchProgress.statusMsg r
           \<and> Traces (response s) = resultsCombiner r"
  using assms
  by (simp add: snapshotAfter_def result_def deref_def alloc_def readSnapshot_def Metadata_def)

lemma run_from_new:
  assumes "run cs (newSearchProgress h0 c lim tj tb tbb :: ('p::semilattice_sup) world) = Inr w"
  shows "\<exists>s m. snapshotAfter (Inr w) = Some (s, m)
     \<and> TotalJobs m = ucast tj \<and> TotalBlocks m = ucast tb \<and> TotalBlockBytes m = ucast tbb
     \<and> CompletedJobs m = word_of_nat (length (filter isAddResponse cs))
     \<and> shardedSearchResults.finishedRequests s = word_of_nat (length (filter isAddResponse cs))"
proof -
  obtain h r where n: "(newSearchProgress h0 c lim tj tb tbb :: 'p world) = (h, r)"
    by (cases "newSearchProgress h0 c lim tj tb tbb :: 'p world")
  obtain h' r' where w: "w = (h', r')" by (cases w)
  note s = newSearchProgress_state [OF n]
  from s have v: "resultsMetrics r < length h" by simp
  from assms n w have run: "run cs (h, r) = Inr (h', r')" by simp
  from run_kept [OF v, of cs] run have k: "kept (h, r) (h', r')"
    by (simp add: outcome_world_def)
  with v have v': "resultsMetrics r' < length h'" and e: "resultsMetrics r' = resultsMetrics r"
    by (auto simp: kept_def)
  from snapshotAfter_Inr [OF v'] obtain sn where
    sn: "snapshotAfter (Inr (h', r')) = Some (sn, h' ! resultsMetrics r')"
    "shardedSearchResults.finishedRequests sn = searchProgress.finishedRequests r'"
    by auto
  from run_counts [OF v run] k s e sn w show ?thesis
    by (simp add: kept_def)
qed

lemma uint_ucast_32: "uint (ucast (x :: go_int) :: uint32) = sint x mod 2 ^ 32"
proof -
  have "uint (ucast x :: uint32) = take_bit 32 (uint x)"
    by (simp add: unsigned_ucast_eq)
  also have "\<dots> = take_bit 32 (take_bit 64 (sint x))"
    by (simp add: uint_sint)
  also have "\<dots> = take_bit 32 (sint x)"
    by simp
  finally show ?thesis by (simp add: take_bit_eq_mod)
qed

lemma uint_ucast_64: "uint (ucast (x :: go_int) :: uint64) = sint x mod 2 ^ 64"
  by (simp add: uint_sint take_bit_eq_mod)

lemma counters_of_nat:
  "sint (word_of_nat n :: go_int) = signed_take_bit 63 (int n)"
  "unat (word_of_nat n :: uint32) = n mod 2 ^ 32"
  by (simp_all add: sint_sbintrunc' [of "int n", where 'a = 64, simplified]
      unat_of_nat take_bit_eq_mod)

lemma replicate_counts:
  "map_option counters
     (snapshotAfter
        (run (replicate n (AddResponse (Some \<lparr>Traces = [], Metrics = Some 0\<rparr>)))
           (newSearchProgress [jobMetrics] None 3 1 1 1 :: nat world)))
   = Some (signed_take_bit 63 (int n), n mod 2 ^ 32)"
proof -
  let ?cs = "replicate n (AddResponse (Some \<lparr>Traces = [], Metrics = Some 0\<rparr>)) :: nat call list"
  obtain h r where n: "(newSearchProgress [jobMetrics] None 3 1 1 1 :: nat world) = (h, r)"
    by (cases "newSearchProgress [jobMetrics] None 3 1 1 1 :: nat world")
  note s = newSearchProgress_state [OF n]
  from s have v: "resultsMetrics r < length h" by simp
  from s have "list_all (valid_call h) ?cs"
    by (simp add: list_all_iff)
  from run_returns [OF v this] n obtain w
    where w: "run ?cs (newSearchProgress [jobMetrics] None 3 1 1 1 :: nat world) = Inr w"
    by auto
  have l: "length (filter isAddResponse ?cs) = n"
    by (simp add: filter_replicate)
  from run_from_new [OF w] l w show ?thesis
    by (auto simp: counters_def counters_of_nat)
qed

section \<open>The example, evaluated\<close>

lemma exampleSink_eq:
  "exampleSink =
     ([jobMetrics, jobMetrics,
       \<lparr>InspectedTraces = 0, InspectedBytes = 0, TotalBlocks = 2, CompletedJobs = 0,
        TotalJobs = 2, TotalBlockBytes = 1000\<rparr>],
      \<lparr>searchProgress.err = None, searchProgress.statusCode = 200,
       searchProgress.statusMsg = [], ctx = None, resultsCombiner = [], resultsMetrics = 2,
       searchProgress.finishedRequests = 0, limit = 3\<rparr>)"
  by (simp add: exampleSink_def newSearchProgress_def alloc_def NewMetadataCombiner_def
      StatusOK_def)

lemma example_step1:
  "run [AddResponse (Some job1)] exampleSink =
     Inr ([jobMetrics, jobMetrics,
           \<lparr>InspectedTraces = 5, InspectedBytes = 100, TotalBlocks = 2, CompletedJobs = 1,
            TotalJobs = 2, TotalBlockBytes = 1000\<rparr>],
          \<lparr>searchProgress.err = None, searchProgress.statusCode = 200,
           searchProgress.statusMsg = [], ctx = None,
           resultsCombiner = [\<lparr>TraceID = ''A'', detail = 1\<rparr>, \<lparr>TraceID = ''B'', detail = 1\<rparr>],
           resultsMetrics = 2, searchProgress.finishedRequests = 1, limit = 3\<rparr>)"
  by (simp add: exampleSink_eq job1_def jobMetrics_def addMetrics_def deref_def)

lemma example_step2:
  "run [AddResponse (Some job1), AddResponse (Some job2)] exampleSink =
     Inr ([jobMetrics, jobMetrics,
           \<lparr>InspectedTraces = 10, InspectedBytes = 200, TotalBlocks = 2, CompletedJobs = 2,
            TotalJobs = 2, TotalBlockBytes = 1000\<rparr>],
          \<lparr>searchProgress.err = None, searchProgress.statusCode = 200,
           searchProgress.statusMsg = [], ctx = None,
           resultsCombiner = [\<lparr>TraceID = ''A'', detail = 1\<rparr>, \<lparr>TraceID = ''B'', detail = 1\<rparr>,
                              \<lparr>TraceID = ''C'', detail = 1\<rparr>, \<lparr>TraceID = ''D'', detail = 1\<rparr>],
           resultsMetrics = 2, searchProgress.finishedRequests = 2, limit = 3\<rparr>)"
  by (simp add: exampleSink_eq job1_def job2_def jobMetrics_def addMetrics_def deref_def)

lemma exampleSnapshot_eq:
  "result exampleSink = Inr exampleSnapshot"
  "fst exampleSnapshot =
     [jobMetrics, jobMetrics,
       \<lparr>InspectedTraces = 0, InspectedBytes = 0, TotalBlocks = 2, CompletedJobs = 0,
        TotalJobs = 2, TotalBlockBytes = 1000\<rparr>,
       \<lparr>InspectedTraces = 0, InspectedBytes = 0, TotalBlocks = 2, CompletedJobs = 0,
        TotalJobs = 2, TotalBlockBytes = 1000\<rparr>]"
  "Metrics (response (snd exampleSnapshot)) = Some 3"
  by (simp_all add: exampleSnapshot_def exampleSink_eq result_def deref_def alloc_def)

lemma example_after_snapshot:
  "run [AddResponse (Some job1)] (fst exampleSnapshot, snd exampleSink) =
     Inr ([jobMetrics, jobMetrics,
           \<lparr>InspectedTraces = 5, InspectedBytes = 100, TotalBlocks = 2, CompletedJobs = 1,
            TotalJobs = 2, TotalBlockBytes = 1000\<rparr>,
           \<lparr>InspectedTraces = 0, InspectedBytes = 0, TotalBlocks = 2, CompletedJobs = 0,
            TotalJobs = 2, TotalBlockBytes = 1000\<rparr>],
          \<lparr>searchProgress.err = None, searchProgress.statusCode = 200,
           searchProgress.statusMsg = [], ctx = None,
           resultsCombiner = [\<lparr>TraceID = ''A'', detail = 1\<rparr>, \<lparr>TraceID = ''B'', detail = 1\<rparr>],
           resultsMetrics = 2, searchProgress.finishedRequests = 1, limit = 3\<rparr>)"
  by (simp add: exampleSnapshot_eq(2) exampleSink_eq job1_def jobMetrics_def addMetrics_def
      deref_def)

section \<open>The stop decision\<close>

lemma go_div_100_eq_2_iff:
  "go_div c 100 = 2 \<longleftrightarrow> 200 \<le> sint c \<and> sint c \<le> 299"
proof -
  have lo: "- (2 ^ 63) \<le> sint c" and hi: "sint c < 2 ^ 63"
    using sint_ge [of c] sint_lt [of c] by simp_all
  define k where "k = sint c sdiv 100"
  have kb: "- (2 ^ 63) \<le> k \<and> k < 2 ^ 63"
    using lo hi unfolding k_def signed_divide_int_def
    by (simp add: sgn_if abs_if) (intro conjI impI; linarith?; presburger)
  have "(word_of_int k :: go_int) = 2 \<longleftrightarrow> k = 2"
  proof
    assume "(word_of_int k :: go_int) = 2"
    then have "sint (word_of_int k :: go_int) = sint (2 :: go_int)" by simp
    moreover have "sint (word_of_int k :: go_int) = k"
      using kb by (simp add: sint_sbintrunc' signed_take_bit_int_eq_self)
    ultimately show "k = 2" by simp
  qed simp
  moreover have "k = 2 \<longleftrightarrow> 200 \<le> sint c \<and> sint c \<le> 299"
    unfolding k_def signed_divide_int_def
    by (simp add: sgn_if abs_if) (intro conjI impI; linarith?; presburger)
  ultimately show ?thesis by (simp add: go_div_def k_def)
qed

lemma internalShouldQuit_iff:
  "internalShouldQuit r \<longleftrightarrow>
     searchProgress.err r \<noteq> None \<or> ctx r \<noteq> None
     \<or> go_div (searchProgress.statusCode r) 100 \<noteq> 2
     \<or> limit r <s Count (resultsCombiner r)"
  by (simp add: internalShouldQuit_def go_gt_def)

text \<open>
  C1. In every state of a sink, \<open>shouldQuit\<close> is true exactly when an error is recorded, or
  the context has fired, or the status code divided by 100 is not 2, or the combiner's count
  is strictly greater than the limit. It reads the current state only: a sink that answered
  true answers false again after any calls that leave all four conditions false. With Go's
  truncating division the third condition says that the code is outside 200..299.
\<close>

theorem shouldQuit_level_check:
  "(shouldQuit r \<longleftrightarrow>
      searchProgress.err r \<noteq> None \<or> ctx r \<noteq> None
      \<or> go_div (searchProgress.statusCode r) 100 \<noteq> 2
      \<or> limit r <s Count (resultsCombiner r))
   \<and> (shouldQuit r \<and> run cs (h, r) = Inr (h', r')
        \<and> searchProgress.err r' = None \<and> ctx r' = None
        \<and> go_div (searchProgress.statusCode r') 100 = 2
        \<and> \<not> limit r' <s Count (resultsCombiner r')
      \<longrightarrow> \<not> shouldQuit r')
   \<and> (go_div (searchProgress.statusCode r) 100 \<noteq> 2 \<longleftrightarrow>
        sint (searchProgress.statusCode r) < 200 \<or> 299 < sint (searchProgress.statusCode r))"
  using go_div_100_eq_2_iff [of "searchProgress.statusCode r"]
  by (auto simp: shouldQuit_def internalShouldQuit_iff)

theorem shouldQuit_level_check_witness:
  "shouldQuit (setStatus (snd (newSearchProgress [] None 3 1 1 1 :: nat world)) 500 ''down'')
   \<and> run [SetStatus 200 ''OK'']
        ([\<lparr>InspectedTraces = 0, InspectedBytes = 0, TotalBlocks = 1, CompletedJobs = 0,
           TotalJobs = 1, TotalBlockBytes = 1\<rparr>],
         setStatus (snd (newSearchProgress [] None 3 1 1 1 :: nat world)) 500 ''down'')
      = Inr ([\<lparr>InspectedTraces = 0, InspectedBytes = 0, TotalBlocks = 1, CompletedJobs = 0,
               TotalJobs = 1, TotalBlockBytes = 1\<rparr>],
             setStatus (setStatus (snd (newSearchProgress [] None 3 1 1 1 :: nat world))
               500 ''down'') 200 ''OK'')
   \<and> \<not> shouldQuit
        (setStatus (setStatus (snd (newSearchProgress [] None 3 1 1 1 :: nat world))
           500 ''down'') 200 ''OK'')"
  using shouldQuit_level_check
    [of "setStatus (snd (newSearchProgress [] None 3 1 1 1 :: nat world)) 500 ''down''"
        "[SetStatus 200 ''OK'']"
        "[\<lparr>InspectedTraces = 0, InspectedBytes = 0, TotalBlocks = 1, CompletedJobs = 0,
           TotalJobs = 1, TotalBlockBytes = 1\<rparr>]"
        "[\<lparr>InspectedTraces = 0, InspectedBytes = 0, TotalBlocks = 1, CompletedJobs = 0,
           TotalJobs = 1, TotalBlockBytes = 1\<rparr>]"
        "setStatus (setStatus (snd (newSearchProgress [] None 3 1 1 1 :: nat world))
           500 ''down'') 200 ''OK''"]
  by (simp add: newSearchProgress_def alloc_def setStatus_def NewMetadataCombiner_def Count_def
        StatusOK_def go_div_def signed_divide_int_def word_sless_alt)

section \<open>Recording errors\<close>

lemma run_SetError:
  "es \<noteq> [] \<Longrightarrow> run (map SetError es) (h, r) = Inr (h, r\<lparr>searchProgress.err := last es\<rparr>)"
proof (induction es arbitrary: r)
  case Nil
  then show ?case by simp
next
  case (Cons e es)
  show ?case
  proof (cases "es = []")
    case True
    then show ?thesis by (simp add: setError_def)
  next
    case False
    with Cons.IH [of "setError r e"] show ?thesis by (simp add: setError_def)
  qed
qed

text \<open>
  C7. \<open>setError\<close> is last-wins: after the calls \<open>setError e1, ..., setError ek\<close> with
  \<open>k \<ge> 1\<close> the sink is the sink before them with its error replaced by \<open>ek\<close>, every
  earlier error gone, and a snapshot taken then carries \<open>ek\<close> (\<open>result\<close> panics only when the
  sink's metrics pointer is not allocated). A recorded error that is not nil makes
  \<open>shouldQuit\<close> true.
\<close>

theorem setError_last_wins:
  "(es \<noteq> [] \<longrightarrow>
      run (map SetError es) (h, r) = Inr (h, r\<lparr>searchProgress.err := last es\<rparr>)
      \<and> (case result (h, r\<lparr>searchProgress.err := last es\<rparr>) of
           Inr (h', s) \<Rightarrow> shardedSearchResults.err s = last es
         | Inl p \<Rightarrow> deref h (resultsMetrics r) = None))
   \<and> (searchProgress.err r \<noteq> None \<longrightarrow> shouldQuit r)"
  by (auto simp: run_SetError result_def alloc_def shouldQuit_def internalShouldQuit_def
      split: option.splits)

theorem setError_last_wins_witness:
  "run (map SetError [Some Canceled, Some ErrDoesNotExist])
     (newSearchProgress [] None 10 1 1 1 :: nat world)
   = Inr (fst (newSearchProgress [] None 10 1 1 1 :: nat world),
          (snd (newSearchProgress [] None 10 1 1 1 :: nat world))
            \<lparr>searchProgress.err := Some ErrDoesNotExist\<rparr>)
   \<and> shardedSearchResults.err
        (snd (projr (result (fst (newSearchProgress [] None 10 1 1 1 :: nat world),
           (snd (newSearchProgress [] None 10 1 1 1 :: nat world))
             \<lparr>searchProgress.err := Some ErrDoesNotExist\<rparr>))))
      = Some ErrDoesNotExist
   \<and> shouldQuit ((snd (newSearchProgress [] None 10 1 1 1 :: nat world))
        \<lparr>searchProgress.err := Some ErrDoesNotExist\<rparr>)"
  using setError_last_wins
    [of "[Some Canceled, Some ErrDoesNotExist]"
        "fst (newSearchProgress [] None 10 1 1 1 :: nat world)"
        "snd (newSearchProgress [] None 10 1 1 1 :: nat world)"]
    setError_last_wins
    [of "[]" "[]"
        "(snd (newSearchProgress [] None 10 1 1 1 :: nat world))
           \<lparr>searchProgress.err := Some ErrDoesNotExist\<rparr>"]
  by (simp add: newSearchProgress_def alloc_def result_def deref_def)

section \<open>The limit\<close>

lemma shouldQuit_at_limit:
  "searchProgress.err r = None \<Longrightarrow> ctx r = None
   \<Longrightarrow> go_div (searchProgress.statusCode r) 100 = 2
   \<Longrightarrow> Count (resultsCombiner r) = limit r \<Longrightarrow> \<not> shouldQuit r"
  by (simp add: shouldQuit_def internalShouldQuit_iff word_sless_alt)

text \<open>
  C4. The limit condition is strict. A sink with no error, a live context and a 2xx status
  whose count equals its limit does not quit; a snapshot carries every entry of the
  combiner, however many; and in scenario A (limit 3) merging \<open>{A, B}\<close> leaves
  \<open>shouldQuit\<close> false at count 2, merging \<open>{C, D}\<close> after it gives count 4 and
  \<open>shouldQuit\<close> true, and the snapshot then holds all four entries.
\<close>

theorem limit_is_strict:
  "(searchProgress.err r = None \<and> ctx r = None
      \<and> go_div (searchProgress.statusCode r) 100 = 2
      \<and> Count (resultsCombiner r) = limit r \<longrightarrow> \<not> shouldQuit r)
   \<and> (result (h, r) = Inr (h', s) \<longrightarrow> Traces (response s) = resultsCombiner r)
   \<and> map_option (\<lambda>w. (shouldQuit (snd w), Count (resultsCombiner (snd w))))
        (case run [AddResponse (Some job1)] exampleSink of Inl pw \<Rightarrow> None | Inr w \<Rightarrow> Some w)
      = Some (False, 2)
   \<and> map_option (\<lambda>w. (shouldQuit (snd w), Count (resultsCombiner (snd w))))
        (case run [AddResponse (Some job1), AddResponse (Some job2)] exampleSink of
           Inl pw \<Rightarrow> None | Inr w \<Rightarrow> Some w)
      = Some (True, 4)
   \<and> map_option (\<lambda>sm. map TraceID (Traces (response (fst sm))))
        (snapshotAfter (run [AddResponse (Some job1), AddResponse (Some job2)] exampleSink))
      = Some [''A'', ''B'', ''C'', ''D'']"
proof (intro conjI)
  show "searchProgress.err r = None \<and> ctx r = None
      \<and> go_div (searchProgress.statusCode r) 100 = 2
      \<and> Count (resultsCombiner r) = limit r \<longrightarrow> \<not> shouldQuit r"
    using shouldQuit_at_limit [of r] by blast
  show "result (h, r) = Inr (h', s) \<longrightarrow> Traces (response s) = resultsCombiner r"
    using result_frame(4) [of h r h' s] by (simp add: Metadata_def)
  show "map_option (\<lambda>w. (shouldQuit (snd w), Count (resultsCombiner (snd w))))
        (case run [AddResponse (Some job1)] exampleSink of Inl pw \<Rightarrow> None | Inr w \<Rightarrow> Some w)
      = Some (False, 2)"
    unfolding example_step1
    by (simp add: shouldQuit_def internalShouldQuit_def go_gt_def go_div_def
        signed_divide_int_def Count_def word_sless_alt)
  show "map_option (\<lambda>w. (shouldQuit (snd w), Count (resultsCombiner (snd w))))
        (case run [AddResponse (Some job1), AddResponse (Some job2)] exampleSink of
           Inl pw \<Rightarrow> None | Inr w \<Rightarrow> Some w)
      = Some (True, 4)"
    unfolding example_step2
    by (simp add: shouldQuit_def internalShouldQuit_def go_gt_def go_div_def
        signed_divide_int_def Count_def word_sless_alt)
  show "map_option (\<lambda>sm. map TraceID (Traces (response (fst sm))))
        (snapshotAfter (run [AddResponse (Some job1), AddResponse (Some job2)] exampleSink))
      = Some [''A'', ''B'', ''C'', ''D'']"
    unfolding example_step2
    by (simp add: snapshotAfter_def result_def deref_def alloc_def readSnapshot_def Metadata_def)
qed

theorem limit_is_strict_witness:
  "\<not> shouldQuit
       \<lparr>searchProgress.err = None, searchProgress.statusCode = 200,
        searchProgress.statusMsg = [], ctx = None,
        resultsCombiner = [\<lparr>TraceID = ''A'', detail = 1 :: nat\<rparr>, \<lparr>TraceID = ''B'', detail = 1\<rparr>],
        resultsMetrics = 0, searchProgress.finishedRequests = 1, limit = 2\<rparr>
   \<and> Traces (response (snd (projr (result ([jobMetrics],
       \<lparr>searchProgress.err = None, searchProgress.statusCode = 200,
        searchProgress.statusMsg = [], ctx = None,
        resultsCombiner = [\<lparr>TraceID = ''A'', detail = 1 :: nat\<rparr>, \<lparr>TraceID = ''B'', detail = 1\<rparr>],
        resultsMetrics = 0, searchProgress.finishedRequests = 1, limit = 2\<rparr>)))))
       = [\<lparr>TraceID = ''A'', detail = 1\<rparr>, \<lparr>TraceID = ''B'', detail = 1\<rparr>]"
  using limit_is_strict
    [of "\<lparr>searchProgress.err = None, searchProgress.statusCode = 200,
         searchProgress.statusMsg = [], ctx = None,
         resultsCombiner = [\<lparr>TraceID = ''A'', detail = 1 :: nat\<rparr>, \<lparr>TraceID = ''B'', detail = 1\<rparr>],
         resultsMetrics = 0, searchProgress.finishedRequests = 1, limit = 2\<rparr>"
        "[jobMetrics]"
        "fst (projr (result ([jobMetrics],
           \<lparr>searchProgress.err = None, searchProgress.statusCode = 200,
            searchProgress.statusMsg = [], ctx = None,
            resultsCombiner = [\<lparr>TraceID = ''A'', detail = 1 :: nat\<rparr>, \<lparr>TraceID = ''B'', detail = 1\<rparr>],
            resultsMetrics = 0, searchProgress.finishedRequests = 1, limit = 2\<rparr>)))"
        "snd (projr (result ([jobMetrics],
           \<lparr>searchProgress.err = None, searchProgress.statusCode = 200,
            searchProgress.statusMsg = [], ctx = None,
            resultsCombiner = [\<lparr>TraceID = ''A'', detail = 1 :: nat\<rparr>, \<lparr>TraceID = ''B'', detail = 1\<rparr>],
            resultsMetrics = 0, searchProgress.finishedRequests = 1, limit = 2\<rparr>)))"]
  by (simp add: alloc_def deref_def result_def Count_def go_div_def signed_divide_int_def
      Metadata_def)

section \<open>The plan totals\<close>

text \<open>
  C5. No sequence of calls, whatever the partial results carry as their own totals, changes
  the sink's \<open>TotalJobs\<close>, \<open>TotalBlocks\<close> and \<open>TotalBlockBytes\<close>: they stay what they
  were, and for a sink made by \<open>newSearchProgress\<close> they are the values stored at
  construction. This holds in the state a panic leaves behind as well.
\<close>

theorem plan_totals_fixed:
  "(resultsMetrics r < length h \<and> outcome_world (run cs (h, r)) = (h', r') \<longrightarrow>
      resultsMetrics r' = resultsMetrics r \<and> resultsMetrics r' < length h'
      \<and> TotalJobs (h' ! resultsMetrics r') = TotalJobs (h ! resultsMetrics r)
      \<and> TotalBlocks (h' ! resultsMetrics r') = TotalBlocks (h ! resultsMetrics r)
      \<and> TotalBlockBytes (h' ! resultsMetrics r') = TotalBlockBytes (h ! resultsMetrics r))
   \<and> (outcome_world
          (run cs (newSearchProgress h0 c lim totalJobs totalBlocks totalBlockBytes
             :: ('p::semilattice_sup) world))
        = (h1, r1) \<longrightarrow>
      map_option TotalJobs (deref h1 (resultsMetrics r1)) = Some (ucast totalJobs)
      \<and> map_option TotalBlocks (deref h1 (resultsMetrics r1)) = Some (ucast totalBlocks)
      \<and> map_option TotalBlockBytes (deref h1 (resultsMetrics r1))
          = Some (ucast totalBlockBytes))"
proof (rule conjI; rule impI)
  assume a: "resultsMetrics r < length h \<and> outcome_world (run cs (h, r)) = (h', r')"
  with run_kept [of r h cs] have "kept (h, r) (h', r')" by simp
  with a show "resultsMetrics r' = resultsMetrics r \<and> resultsMetrics r' < length h'
      \<and> TotalJobs (h' ! resultsMetrics r') = TotalJobs (h ! resultsMetrics r)
      \<and> TotalBlocks (h' ! resultsMetrics r') = TotalBlocks (h ! resultsMetrics r)
      \<and> TotalBlockBytes (h' ! resultsMetrics r') = TotalBlockBytes (h ! resultsMetrics r)"
    by (simp add: kept_def)
next
  assume "outcome_world
          (run cs (newSearchProgress h0 c lim totalJobs totalBlocks totalBlockBytes :: 'p world))
        = (h1, r1)"
  from run_outcome_totals [OF this]
  show "map_option TotalJobs (deref h1 (resultsMetrics r1)) = Some (ucast totalJobs)
      \<and> map_option TotalBlocks (deref h1 (resultsMetrics r1)) = Some (ucast totalBlocks)
      \<and> map_option TotalBlockBytes (deref h1 (resultsMetrics r1))
          = Some (ucast totalBlockBytes)"
    by (simp add: deref_def)
qed

theorem plan_totals_fixed_witness:
  "map_option TotalJobs
     (deref (fst (outcome_world (run [AddResponse (Some job1), AddResponse (Some job2)] exampleSink)))
        (resultsMetrics
           (snd (outcome_world (run [AddResponse (Some job1), AddResponse (Some job2)] exampleSink)))))
     = Some 2
   \<and> map_option TotalBlocks
     (deref (fst (outcome_world (run [AddResponse (Some job1), AddResponse (Some job2)] exampleSink)))
        (resultsMetrics
           (snd (outcome_world (run [AddResponse (Some job1), AddResponse (Some job2)] exampleSink)))))
     = Some 2
   \<and> map_option TotalBlockBytes
     (deref (fst (outcome_world (run [AddResponse (Some job1), AddResponse (Some job2)] exampleSink)))
        (resultsMetrics
           (snd (outcome_world (run [AddResponse (Some job1), AddResponse (Some job2)] exampleSink)))))
     = Some 1000
   \<and> TotalBlocks jobMetrics = 9"
  using plan_totals_fixed
    [of "snd exampleSink" "fst exampleSink" "[AddResponse (Some job1), AddResponse (Some job2)]"
        "fst (outcome_world (run [AddResponse (Some job1), AddResponse (Some job2)] exampleSink))"
        "snd (outcome_world (run [AddResponse (Some job1), AddResponse (Some job2)] exampleSink))"
        "[jobMetrics, jobMetrics]" None 3 2 2 1000
        "fst (outcome_world (run [AddResponse (Some job1), AddResponse (Some job2)] exampleSink))"
        "snd (outcome_world (run [AddResponse (Some job1), AddResponse (Some job2)] exampleSink))"]
  unfolding exampleSink_def [symmetric]
  by (simp add: example_step2 outcome_world_def deref_def jobMetrics_def)

text \<open>
  C10. The factory narrows its arguments: a snapshot taken after any run of calls that
  returned reports \<open>totalJobs\<close> and \<open>totalBlocks\<close> modulo \<open>2^32\<close> and
  \<open>totalBlockBytes\<close> modulo \<open>2^64\<close>.
\<close>

theorem newSearchProgress_narrows:
  "run cs (newSearchProgress h0 c lim totalJobs totalBlocks totalBlockBytes
        :: ('p::semilattice_sup) world) = Inr w \<longrightarrow>
     map_option planTotals (snapshotAfter (Inr w))
       = Some (sint totalJobs mod 2 ^ 32, sint totalBlocks mod 2 ^ 32,
               sint totalBlockBytes mod 2 ^ 64)"
proof
  assume "run cs (newSearchProgress h0 c lim totalJobs totalBlocks totalBlockBytes :: 'p world)
    = Inr w"
  from run_from_new [OF this] obtain s m where sm: "snapshotAfter (Inr w) = Some (s, m)"
    and "TotalJobs m = ucast totalJobs" and "TotalBlocks m = ucast totalBlocks"
    and "TotalBlockBytes m = ucast totalBlockBytes"
    by blast
  then have "uint (TotalJobs m) = sint totalJobs mod 2 ^ 32"
    and "uint (TotalBlocks m) = sint totalBlocks mod 2 ^ 32"
    and "uint (TotalBlockBytes m) = sint totalBlockBytes mod 2 ^ 64"
    using uint_ucast_32 [of totalJobs] uint_ucast_32 [of totalBlocks]
      uint_ucast_64 [of totalBlockBytes]
    by simp_all
  with sm show "map_option planTotals (snapshotAfter (Inr w))
       = Some (sint totalJobs mod 2 ^ 32, sint totalBlocks mod 2 ^ 32,
               sint totalBlockBytes mod 2 ^ 64)"
    by (simp add: planTotals_def)
qed

theorem newSearchProgress_narrows_witness:
  "map_option planTotals
     (snapshotAfter (Inr (newSearchProgress [] None 3 4294967296 (- 1) (- 1) :: nat world)))
   = Some (0, 4294967295, 18446744073709551615)"
  using newSearchProgress_narrows
    [of "[]" "[]" None 3 4294967296 "- 1" "- 1"
        "newSearchProgress [] None 3 4294967296 (- 1) (- 1) :: nat world"]
  by simp

section \<open>The two counters\<close>

text \<open>
  C6, as amended. Each \<open>addResponse\<close> that returns adds one to \<open>finishedRequests\<close> (a Go
  \<open>int\<close>) and one to \<open>CompletedJobs\<close> (a \<open>uint32\<close>), and no other call touches them. So
  after a run from a fresh sink with \<open>N\<close> calls of \<open>addResponse\<close>, interleaved with any
  other calls, the snapshot reads \<open>finishedRequests = N\<close> in 64-bit two's complement and
  \<open>CompletedJobs = N mod 2^32\<close>; both are \<open>N\<close> when \<open>N < 2^32\<close>. The run returns when
  no \<open>addResponse\<close> in it has a nil argument or nil \<open>Metrics\<close>.
\<close>

theorem counters_count_addResponse:
  "(run cs (newSearchProgress h0 c lim totalJobs totalBlocks totalBlockBytes
        :: ('p::semilattice_sup) world) = Inr w \<longrightarrow>
      map_option counters (snapshotAfter (Inr w))
        = Some (signed_take_bit 63 (int (length (filter isAddResponse cs))),
                length (filter isAddResponse cs) mod 2 ^ 32)
      \<and> (length (filter isAddResponse cs) < 2 ^ 32 \<longrightarrow>
           map_option counters (snapshotAfter (Inr w))
             = Some (int (length (filter isAddResponse cs)),
                     length (filter isAddResponse cs))))
   \<and> (list_all (valid_call h0) cs \<longrightarrow>
        (\<exists>w'. run cs (newSearchProgress h0 c lim totalJobs totalBlocks totalBlockBytes
                 :: 'p world) = Inr w'))"
proof (rule conjI; rule impI)
  let ?n = "length (filter isAddResponse cs)"
  assume "run cs (newSearchProgress h0 c lim totalJobs totalBlocks totalBlockBytes :: 'p world)
    = Inr w"
  from run_from_new [OF this]
  have 1: "map_option counters (snapshotAfter (Inr w))
        = Some (signed_take_bit 63 (int ?n), ?n mod 2 ^ 32)"
    by (auto simp: counters_def counters_of_nat)
  have 2: "signed_take_bit 63 (int ?n) = int ?n" if "?n < 2 ^ 32"
  proof (rule signed_take_bit_int_eq_self)
    show "- (2 ^ 63) \<le> int ?n" by (rule order_trans [of _ 0]) simp_all
    from that have "int ?n < 2 ^ 32" by simp
    then show "int ?n < 2 ^ 63" by simp
  qed
  from 1 2 show "map_option counters (snapshotAfter (Inr w))
        = Some (signed_take_bit 63 (int ?n), ?n mod 2 ^ 32)
      \<and> (?n < 2 ^ 32 \<longrightarrow>
           map_option counters (snapshotAfter (Inr w)) = Some (int ?n, ?n))"
    by (cases "?n < 2 ^ 32") simp_all
next
  assume a: "list_all (valid_call h0) cs"
  obtain h r where n: "(newSearchProgress h0 c lim totalJobs totalBlocks totalBlockBytes :: 'p world) = (h, r)"
    by (cases "newSearchProgress h0 c lim totalJobs totalBlocks totalBlockBytes :: 'p world")
  note s = newSearchProgress_state [OF n]
  from s have v: "resultsMetrics r < length h" by simp
  from a s have "list_all (valid_call h) cs"
    by (auto simp: list_all_iff intro: valid_call_mono)
  from run_returns [OF v this] n
  show "\<exists>w'. run cs (newSearchProgress h0 c lim totalJobs totalBlocks totalBlockBytes
                 :: 'p world) = Inr w'"
    by simp
qed

theorem counters_count_addResponse_witness:
  "map_option counters
     (snapshotAfter
        (run [AddResponse (Some \<lparr>Traces = [], Metrics = Some 0\<rparr>), ShouldQuit,
              SetStatus 200 ''OK'', AddResponse (Some \<lparr>Traces = [], Metrics = Some 0\<rparr>),
              Result, SetError None]
           (newSearchProgress [jobMetrics] None 3 1 1 1 :: nat world)))
   = Some (2, 2)"
proof -
  let ?cs = "[AddResponse (Some \<lparr>Traces = [], Metrics = Some 0\<rparr>), ShouldQuit,
              SetStatus 200 ''OK'', AddResponse (Some \<lparr>Traces = [], Metrics = Some 0\<rparr>),
              Result, SetError None] :: nat call list"
  have v: "list_all (valid_call [jobMetrics]) ?cs" by simp
  have n: "length (filter isAddResponse ?cs) = 2" by simp
  from counters_count_addResponse [of ?cs "[jobMetrics]" None 3 1 1 1] v
  obtain w where w: "run ?cs (newSearchProgress [jobMetrics] None 3 1 1 1 :: nat world) = Inr w"
    by blast
  from counters_count_addResponse [of ?cs "[jobMetrics]" None 3 1 1 1 w, unfolded n] w
  have "map_option counters (snapshotAfter (Inr w)) = Some (2, 2)"
    by (simp del: run.simps step.simps)
  then show ?thesis unfolding w .
qed

text \<open>
  After \<open>2^32\<close> calls of \<open>addResponse\<close> the snapshot reads \<open>finishedRequests = 2^32\<close>
  and \<open>CompletedJobs = 0\<close>: the two counters differ.
\<close>

theorem counters_wrap_counterexample:
  "map_option counters
     (snapshotAfter
        (run (replicate 4294967296 (AddResponse (Some \<lparr>Traces = [], Metrics = Some 0\<rparr>)))
           (newSearchProgress [jobMetrics] None 3 1 1 1 :: nat world)))
   = Some (4294967296, 0)"
proof -
  have a: "signed_take_bit 63 (int 4294967296) = 4294967296" by simp
  have b: "(4294967296 :: nat) mod 2 ^ 32 = 0" by simp
  show ?thesis
    using replicate_counts [of 4294967296] by (simp only: a b)
qed

section \<open>Snapshots\<close>

text \<open>
  C3. A snapshot does not change under later calls. Its metrics pointer leads to an object
  allocated by \<open>result\<close>, holding a copy of the sink's metrics at that moment; that
  object is not the sink's, and no later run of calls, returning or panicking, writes to it.
  The entries in the snapshot are the value \<open>Metadata\<close> returned.
\<close>

theorem snapshot_isolation:
  "result (h, r) = Inr (h1, s) \<and> outcome_world (run cs (h1, r)) = (h2, r2) \<longrightarrow>
     readSnapshot h2 s = readSnapshot h1 s
     \<and> readSnapshot h1 s = (s, Some (h ! resultsMetrics r))
     \<and> Metrics (response s) \<noteq> Some (resultsMetrics r2)"
proof
  assume a: "result (h, r) = Inr (h1, s) \<and> outcome_world (run cs (h1, r)) = (h2, r2)"
  then have res: "result (h, r) = Inr (h1, s)" and out: "outcome_world (run cs (h1, r)) = (h2, r2)"
    by simp_all
  note f = result_frame [OF res]
  from f have v: "resultsMetrics r < length h1" by simp
  from run_kept [OF v, of cs] out have k: "kept (h1, r) (h2, r2)" by simp
  from f have l: "length h < length h1" "length h \<noteq> resultsMetrics r" by simp_all
  from k l have "h2 ! length h = h1 ! length h" "length h < length h2" "resultsMetrics r2 = resultsMetrics r"
    by (simp_all add: kept_def)
  with f l show "readSnapshot h2 s = readSnapshot h1 s
     \<and> readSnapshot h1 s = (s, Some (h ! resultsMetrics r))
     \<and> Metrics (response s) \<noteq> Some (resultsMetrics r2)"
    by (simp add: readSnapshot_def deref_def)
qed

theorem snapshot_isolation_witness:
  "readSnapshot
     (fst (outcome_world (run [AddResponse (Some job1)] (fst exampleSnapshot, snd exampleSink))))
     (snd exampleSnapshot)
   = readSnapshot (fst exampleSnapshot) (snd exampleSnapshot)
   \<and> snd (readSnapshot (fst exampleSnapshot) (snd exampleSnapshot))
       = Some \<lparr>InspectedTraces = 0, InspectedBytes = 0, TotalBlocks = 2, CompletedJobs = 0,
               TotalJobs = 2, TotalBlockBytes = 1000\<rparr>
   \<and> deref
        (fst (outcome_world (run [AddResponse (Some job1)] (fst exampleSnapshot, snd exampleSink))))
        (resultsMetrics (snd exampleSink))
       = Some \<lparr>InspectedTraces = 5, InspectedBytes = 100, TotalBlocks = 2, CompletedJobs = 1,
               TotalJobs = 2, TotalBlockBytes = 1000\<rparr>"
proof -
  let ?O = "outcome_world (run [AddResponse (Some job1)] (fst exampleSnapshot, snd exampleSink))"
  have r: "result (fst exampleSink, snd exampleSink)
      = Inr (fst exampleSnapshot, snd exampleSnapshot)"
    using exampleSnapshot_eq(1) by simp
  have o: "?O = (fst ?O, snd ?O)" by simp
  from snapshot_isolation
    [of "fst exampleSink" "snd exampleSink" "fst exampleSnapshot" "snd exampleSnapshot"
        "[AddResponse (Some job1)]" "fst ?O" "snd ?O"] r o
  have c: "readSnapshot (fst ?O) (snd exampleSnapshot)
      = readSnapshot (fst exampleSnapshot) (snd exampleSnapshot)"
    and c': "readSnapshot (fst exampleSnapshot) (snd exampleSnapshot)
      = (snd exampleSnapshot, Some (fst exampleSink ! resultsMetrics (snd exampleSink)))"
    by blast+
  have m: "fst exampleSink ! resultsMetrics (snd exampleSink)
      = \<lparr>InspectedTraces = 0, InspectedBytes = 0, TotalBlocks = 2, CompletedJobs = 0,
         TotalJobs = 2, TotalBlockBytes = 1000\<rparr>"
    by (simp add: exampleSink_eq)
  have d: "deref (fst ?O) (resultsMetrics (snd exampleSink))
      = Some \<lparr>InspectedTraces = 5, InspectedBytes = 100, TotalBlocks = 2, CompletedJobs = 1,
               TotalJobs = 2, TotalBlockBytes = 1000\<rparr>"
    unfolding example_after_snapshot
    by (simp add: outcome_world_def exampleSink_eq deref_def)
  from c c' m d show ?thesis by simp
qed

section \<open>Nil partial results\<close>

text \<open>
  C9. \<open>addResponse\<close> returns exactly when its argument and the argument's \<open>Metrics\<close> are
  not nil (and the pointers involved are allocated, as every Go pointer that is not nil is).
  On a nil argument it panics at once; on nil \<open>Metrics\<close> it panics after the traces have
  been merged, and records no error.
\<close>

theorem addResponse_nil_metrics:
  "addResponse (h, r) None = Inl (NilPointerDereference, (h, r))
   \<and> (Metrics sr = None \<longrightarrow>
        addResponse (h, r) (Some sr) =
          Inl (NilPointerDereference,
               (h, r\<lparr>resultsCombiner := fold AddMetadata (Traces sr) (resultsCombiner r)\<rparr>)))
   \<and> ((\<exists>w'. addResponse (h, r) res = Inr w') \<longleftrightarrow>
        (\<exists>sr b. res = Some sr \<and> Metrics sr = Some b \<and> b < length h
           \<and> resultsMetrics r < length h))"
proof -
  have "(\<exists>w'. addResponse (h, r) res = Inr w') \<longleftrightarrow>
        (\<exists>sr b. res = Some sr \<and> Metrics sr = Some b \<and> b < length h
           \<and> resultsMetrics r < length h)"
  proof (cases res)
    case None
    then show ?thesis by simp
  next
    case (Some sr)
    show ?thesis
    proof (cases "Metrics sr")
      case None
      with Some show ?thesis by (simp add: Let_def)
    next
      case (Some b)
      with \<open>res = Some sr\<close> addMetrics_Some_iff [of h "resultsMetrics r" b] show ?thesis
        by (cases "addMetrics h (resultsMetrics r) b") (auto simp: Let_def)
    qed
  qed
  then show ?thesis by (simp add: Let_def)
qed

theorem addResponse_nil_metrics_witness:
  "addResponse exampleSink None = Inl (NilPointerDereference, exampleSink)
   \<and> addResponse exampleSink (Some (job1\<lparr>Metrics := None\<rparr>)) =
       Inl (NilPointerDereference,
            (fst exampleSink,
             (snd exampleSink)\<lparr>resultsCombiner :=
                [\<lparr>TraceID = ''A'', detail = 1\<rparr>, \<lparr>TraceID = ''B'', detail = 1\<rparr>]\<rparr>))
   \<and> (\<exists>w'. addResponse exampleSink (Some job1) = Inr w')
   \<and> searchProgress.err
        (snd (snd (projl (addResponse exampleSink (Some (job1\<lparr>Metrics := None\<rparr>)))))) = None"
  using addResponse_nil_metrics
    [of "fst exampleSink" "snd exampleSink" "job1\<lparr>Metrics := None\<rparr>" "Some job1"]
  by (simp add: exampleSink_eq job1_def)

section \<open>Order of arrival\<close>

lemma AddMetadata_commute:
  "AddMetadata a (AddMetadata b c) = AddMetadata b (AddMetadata a c)"
proof (induction c)
  case Nil
  show ?case
    by (cases "TraceID a = TraceID b") (auto simp: sup_commute)
next
  case (Cons e es)
  then show ?case
    by (auto simp: sup_assoc sup_commute sup_left_commute)
qed

lemma fold_AddMetadata_commute:
  "fold AddMetadata xs (fold AddMetadata ys c) = fold AddMetadata ys (fold AddMetadata xs c)"
proof -
  have "fold AddMetadata (ys @ xs) = fold AddMetadata (xs @ ys)"
    by (rule fold_multiset_equiv) (auto simp: fun_eq_iff AddMetadata_commute)
  then show ?thesis by (simp add: fun_eq_iff)
qed

lemma AddMetadata_keys:
  "TraceID ` set (AddMetadata t c) = insert (TraceID t) (TraceID ` set c)"
  by (induction c) auto

lemma AddMetadata_sorted:
  "sorted (map TraceID c) \<Longrightarrow> distinct (map TraceID c)
   \<Longrightarrow> sorted (map TraceID (AddMetadata t c)) \<and> distinct (map TraceID (AddMetadata t c))"
proof (induction c)
  case Nil
  then show ?case by simp
next
  case (Cons e es)
  from Cons.prems have es: "sorted (map TraceID es)" "distinct (map TraceID es)"
    and le: "\<forall>x \<in> set es. TraceID e \<le> TraceID x" and ne: "TraceID e \<notin> TraceID ` set es"
    by auto
  note ih = Cons.IH [OF es]
  show ?case
  proof (cases "TraceID t = TraceID e")
    case True
    with Cons.prems show ?thesis by simp
  next
    case False
    show ?thesis
    proof (cases "TraceID t < TraceID e")
      case True
      with False Cons.prems le show ?thesis by (auto simp: less_le)
    next
      case ge: False
      have k: "TraceID ` set (AddMetadata t es) = insert (TraceID t) (TraceID ` set es)"
        by (rule AddMetadata_keys)
      from ge False have lt: "TraceID e < TraceID t" by simp
      have "\<forall>x \<in> set (AddMetadata t es). TraceID e \<le> TraceID x"
      proof
        fix x assume "x \<in> set (AddMetadata t es)"
        then have "TraceID x \<in> insert (TraceID t) (TraceID ` set es)"
          using k by blast
        with le lt show "TraceID e \<le> TraceID x" by auto
      qed
      moreover from k ne lt have "TraceID e \<notin> TraceID ` set (AddMetadata t es)"
        by simp
      ultimately show ?thesis using ih False ge by simp
    qed
  qed
qed

lemma fold_AddMetadata_distinct:
  "sorted (map TraceID c) \<Longrightarrow> distinct (map TraceID c)
   \<Longrightarrow> sorted (map TraceID (fold AddMetadata ts c))
     \<and> distinct (map TraceID (fold AddMetadata ts c))
     \<and> TraceID ` set (fold AddMetadata ts c) = TraceID ` set ts \<union> TraceID ` set c"
proof (induction ts arbitrary: c)
  case Nil
  then show ?case by simp
next
  case (Cons t ts)
  from AddMetadata_sorted [OF Cons.prems, of t]
  have "sorted (map TraceID (AddMetadata t c))" "distinct (map TraceID (AddMetadata t c))"
    by simp_all
  from Cons.IH [OF this] show ?case
    by (simp add: AddMetadata_keys)
qed

lemma addMetrics_apart:
  assumes "a < length h" "b < length h" "a \<noteq> b"
  shows "addMetrics h a b =
    Some (h[a := (h ! a)\<lparr>InspectedBytes := InspectedBytes (h ! a) + InspectedBytes (h ! b),
                         InspectedTraces := InspectedTraces (h ! a) + InspectedTraces (h ! b),
                         CompletedJobs := CompletedJobs (h ! a) + 1\<rparr>])"
  using assms by (simp add: addMetrics_def deref_def Let_def)

lemma addResponse_apart:
  assumes "apart a n (h, r)" and "Metrics sr = Some b" and "b < a"
  shows "addResponse (h, r) (Some sr) =
    Inr (h[a := (h ! a)\<lparr>InspectedBytes := InspectedBytes (h ! a) + InspectedBytes (h ! b),
                         InspectedTraces := InspectedTraces (h ! a) + InspectedTraces (h ! b),
                         CompletedJobs := CompletedJobs (h ! a) + 1\<rparr>],
         r\<lparr>resultsCombiner := fold AddMetadata (Traces sr) (resultsCombiner r),
           searchProgress.finishedRequests := searchProgress.finishedRequests r + 1\<rparr>)"
proof -
  from assms have "a < length h" "b < length h" "a \<noteq> b" "resultsMetrics r = a"
    by (auto simp: apart_def)
  with addMetrics_apart [of a h b] assms(2) show ?thesis
    by (simp add: Let_def)
qed

lemma absorb_apart:
  assumes "apart a n w" and "jobOf a sr"
  shows "apart a n (absorb sr w)" and "addResponse w (Some sr) = Inr (absorb sr w)"
proof -
  obtain h r where w: "w = (h, r)" by (cases w)
  from assms(2) obtain b where b: "Metrics sr = Some b" "b < a"
    by (auto simp: jobOf_def split: option.splits)
  note e = addResponse_apart [OF assms(1) [unfolded w] b]
  from e w show "addResponse w (Some sr) = Inr (absorb sr w)"
    by (simp add: absorb_def outcome_world_def)
  from e w assms(1) show "apart a n (absorb sr w)"
    by (simp add: absorb_def outcome_world_def apart_def)
qed

lemma absorb_eq:
  assumes "apart a n (h, r)" and "Metrics sr = Some b" and "b < a"
  shows "absorb sr (h, r) =
    (h[a := (h ! a)\<lparr>InspectedBytes := InspectedBytes (h ! a) + InspectedBytes (h ! b),
                     InspectedTraces := InspectedTraces (h ! a) + InspectedTraces (h ! b),
                     CompletedJobs := CompletedJobs (h ! a) + 1\<rparr>],
     r\<lparr>resultsCombiner := fold AddMetadata (Traces sr) (resultsCombiner r),
       searchProgress.finishedRequests := searchProgress.finishedRequests r + 1\<rparr>)"
  using addResponse_apart [OF assms] by (simp add: absorb_def outcome_world_def)

lemma absorb_twice:
  assumes "apart a n (h, r)" and "Metrics x = Some bx" and "bx < a"
    and "Metrics y = Some by'" and "by' < a"
  shows "absorb x (absorb y (h, r)) =
    (h[a := (h ! a)\<lparr>InspectedBytes :=
                       InspectedBytes (h ! a) + InspectedBytes (h ! by') + InspectedBytes (h ! bx),
                     InspectedTraces :=
                       InspectedTraces (h ! a) + InspectedTraces (h ! by') + InspectedTraces (h ! bx),
                     CompletedJobs := CompletedJobs (h ! a) + 1 + 1\<rparr>],
     r\<lparr>resultsCombiner :=
         fold AddMetadata (Traces x) (fold AddMetadata (Traces y) (resultsCombiner r)),
       searchProgress.finishedRequests := searchProgress.finishedRequests r + 1 + 1\<rparr>)"
proof -
  let ?hy = "h[a := (h ! a)\<lparr>InspectedBytes := InspectedBytes (h ! a) + InspectedBytes (h ! by'),
                     InspectedTraces := InspectedTraces (h ! a) + InspectedTraces (h ! by'),
                     CompletedJobs := CompletedJobs (h ! a) + 1\<rparr>]"
  let ?ry = "r\<lparr>resultsCombiner := fold AddMetadata (Traces y) (resultsCombiner r),
       searchProgress.finishedRequests := searchProgress.finishedRequests r + 1\<rparr>"
  from assms(1) have a: "a < length h" "resultsMetrics r = a" "length h = n" "a < n"
    by (auto simp: apart_def)
  have y: "absorb y (h, r) = (?hy, ?ry)"
    by (rule absorb_eq [OF assms(1) assms(4) assms(5)])
  from a have p: "apart a n (?hy, ?ry)"
    by (simp add: apart_def)
  from a assms(3) have n: "?hy ! a = (h ! a)\<lparr>InspectedBytes := InspectedBytes (h ! a) + InspectedBytes (h ! by'),
                     InspectedTraces := InspectedTraces (h ! a) + InspectedTraces (h ! by'),
                     CompletedJobs := CompletedJobs (h ! a) + 1\<rparr>"
    and m: "?hy ! bx = h ! bx"
    by simp_all
  show ?thesis
    unfolding y absorb_eq [OF p assms(2) assms(3)] n m
    by simp
qed

lemma absorb_commute:
  assumes "apart a n w" and "jobOf a x" and "jobOf a y"
  shows "absorb x (absorb y w) = absorb y (absorb x w)"
proof -
  obtain h r where w: "w = (h, r)" by (cases w)
  from assms(2) obtain bx where bx: "Metrics x = Some bx" "bx < a"
    by (auto simp: jobOf_def split: option.splits)
  from assms(3) obtain by' where by': "Metrics y = Some by'" "by' < a"
    by (auto simp: jobOf_def split: option.splits)
  note p = assms(1) [unfolded w]
  show ?thesis
    unfolding w absorb_twice [OF p bx by'] absorb_twice [OF p by' bx]
    by (simp add: fold_AddMetadata_commute [of "Traces x"] ac_simps)
qed

lemma run_absorb:
  assumes "apart a n w" and "list_all (jobOf a) rs"
  shows "run (map (AddResponse \<circ> Some) rs) w = Inr (fold absorb rs w)
     \<and> apart a n (fold absorb rs w)"
  using assms
proof (induction rs arbitrary: w)
  case Nil
  then show ?case by simp
next
  case (Cons sr rs)
  from Cons.prems have j: "jobOf a sr" and js: "list_all (jobOf a) rs" by simp_all
  note s = absorb_apart [OF Cons.prems(1) j]
  obtain h r where w: "w = (h, r)" by (cases w)
  from Cons.IH [OF s(1) js] s(2) w show ?case by simp
qed

lemma fold_absorb_permuted:
  assumes "apart a n w" and "list_all (jobOf a) rs" and "mset rs = mset rs'"
  shows "fold absorb rs w = fold absorb rs' w"
proof (rule fold_permuted_eq [where P = "apart a n"])
  show "mset rs = mset rs'" by fact
  show "apart a n w" by fact
  show "apart a n (absorb x z)" if "x \<in> set rs" "apart a n z" for x z
    using that assms(2) absorb_apart(1) [of a n z x] by (simp add: list_all_iff)
  show "absorb x (absorb y z) = absorb y (absorb x z)"
    if "x \<in> set rs" "y \<in> set rs" "apart a n z" for x y z
    using that assms(2) absorb_commute [of a n z x y] by (simp add: list_all_iff)
qed

lemma permuted_runs:
  assumes "mset rs = mset rs'"
    and "list_all (valid_call h0) (map (AddResponse \<circ> Some) rs)"
  shows "\<exists>w. run (map (AddResponse \<circ> Some) rs)
            (newSearchProgress h0 c lim tj tb tbb :: ('p::semilattice_sup) world) = Inr w
         \<and> run (map (AddResponse \<circ> Some) rs') (newSearchProgress h0 c lim tj tb tbb) = Inr w
         \<and> snapshotAfter (Inr w) \<noteq> None"
proof -
  obtain h r where n: "(newSearchProgress h0 c lim tj tb tbb :: 'p world) = (h, r)"
    by (cases "newSearchProgress h0 c lim tj tb tbb :: 'p world")
  note s = newSearchProgress_state [OF n]
  from s have p: "apart (length h0) (Suc (length h0)) (h, r)"
    by (simp add: apart_def)
  have j: "list_all (jobOf (length h0)) rs"
    unfolding list_all_iff
  proof
    fix sr assume "sr \<in> set rs"
    with assms(2) have "valid_call h0 (AddResponse (Some sr))"
      by (simp add: list_all_iff)
    then show "jobOf (length h0) sr"
      by (simp add: jobOf_def)
  qed
  from assms(1) [symmetric] have "set rs' = set rs" by (rule mset_eq_setD)
  with j have j': "list_all (jobOf (length h0)) rs'"
    by (simp add: list_all_iff)
  note a = run_absorb [OF p j] and b = run_absorb [OF p j']
  note e = fold_absorb_permuted [OF p j assms(1)]
  from a have "resultsMetrics (snd (fold absorb rs (h, r))) < length (fst (fold absorb rs (h, r)))"
    by (simp add: apart_def)
  from snapshotAfter_Inr [OF this] have "snapshotAfter (Inr (fold absorb rs (h, r))) \<noteq> None"
    by auto
  moreover from a have "run (map (AddResponse \<circ> Some) rs) (h, r) = Inr (fold absorb rs (h, r))"
    by simp
  moreover from b e have "run (map (AddResponse \<circ> Some) rs') (h, r) = Inr (fold absorb rs (h, r))"
    by simp
  ultimately show ?thesis
    unfolding n by blast
qed

lemma example_overlap:
  "run (map (AddResponse \<circ> Some) [job3, job1]) exampleSink =
     Inr ([jobMetrics, jobMetrics,
           \<lparr>InspectedTraces = 10, InspectedBytes = 200, TotalBlocks = 2, CompletedJobs = 2,
            TotalJobs = 2, TotalBlockBytes = 1000\<rparr>],
          \<lparr>searchProgress.err = None, searchProgress.statusCode = 200,
           searchProgress.statusMsg = [], ctx = None,
           resultsCombiner = [\<lparr>TraceID = ''A'', detail = 1\<rparr>, \<lparr>TraceID = ''B'', detail = 2\<rparr>,
                              \<lparr>TraceID = ''C'', detail = 1\<rparr>],
           resultsMetrics = 2, searchProgress.finishedRequests = 2, limit = 3\<rparr>)"
  by (simp add: exampleSink_eq job1_def job3_def jobMetrics_def addMetrics_def deref_def
      sup_nat_def)

text \<open>
  C2. Order independence. Take partial results whose \<open>Metrics\<close> are not nil (they point
  at objects allocated before the sink was built) and any two orders \<open>rs\<close> and \<open>rs'\<close> of
  the same multiset. Feeding each order to its own fresh sink, built with the same
  arguments, both runs return and end in the same world: the same combiner, so the same
  entry sequence and the same count, and the same snapshot.
\<close>

theorem order_independence:
  "mset rs = mset rs' \<and> list_all (valid_call h0) (map (AddResponse \<circ> Some) rs) \<longrightarrow>
     (\<exists>w. run (map (AddResponse \<circ> Some) rs)
             (newSearchProgress h0 c lim totalJobs totalBlocks totalBlockBytes
                :: ('p::semilattice_sup) world) = Inr w
          \<and> run (map (AddResponse \<circ> Some) rs')
             (newSearchProgress h0 c lim totalJobs totalBlocks totalBlockBytes) = Inr w)
     \<and> snapshotAfter (run (map (AddResponse \<circ> Some) rs)
             (newSearchProgress h0 c lim totalJobs totalBlocks totalBlockBytes :: 'p world))
       = snapshotAfter (run (map (AddResponse \<circ> Some) rs')
             (newSearchProgress h0 c lim totalJobs totalBlocks totalBlockBytes))
     \<and> snapshotAfter (run (map (AddResponse \<circ> Some) rs)
             (newSearchProgress h0 c lim totalJobs totalBlocks totalBlockBytes :: 'p world))
       \<noteq> None"
proof
  assume a: "mset rs = mset rs' \<and> list_all (valid_call h0) (map (AddResponse \<circ> Some) rs)"
  then have 1: "mset rs = mset rs'"
    and 2: "list_all (valid_call h0) (map (AddResponse \<circ> Some) rs)"
    by blast+
  from permuted_runs [OF 1 2, of c lim totalJobs totalBlocks totalBlockBytes]
  obtain w
    where "run (map (AddResponse \<circ> Some) rs)
             (newSearchProgress h0 c lim totalJobs totalBlocks totalBlockBytes :: 'p world) = Inr w"
      and "run (map (AddResponse \<circ> Some) rs')
             (newSearchProgress h0 c lim totalJobs totalBlocks totalBlockBytes :: 'p world) = Inr w"
      and "snapshotAfter (Inr w) \<noteq> None"
    by blast
  then show "(\<exists>w. run (map (AddResponse \<circ> Some) rs)
             (newSearchProgress h0 c lim totalJobs totalBlocks totalBlockBytes :: 'p world) = Inr w
          \<and> run (map (AddResponse \<circ> Some) rs')
             (newSearchProgress h0 c lim totalJobs totalBlocks totalBlockBytes) = Inr w)
     \<and> snapshotAfter (run (map (AddResponse \<circ> Some) rs)
             (newSearchProgress h0 c lim totalJobs totalBlocks totalBlockBytes :: 'p world))
       = snapshotAfter (run (map (AddResponse \<circ> Some) rs')
             (newSearchProgress h0 c lim totalJobs totalBlocks totalBlockBytes))
     \<and> snapshotAfter (run (map (AddResponse \<circ> Some) rs)
             (newSearchProgress h0 c lim totalJobs totalBlocks totalBlockBytes :: 'p world))
       \<noteq> None"
    by (simp del: run.simps)
qed

theorem order_independence_witness:
  "snapshotAfter (run (map (AddResponse \<circ> Some) [job1, job3]) exampleSink)
     = snapshotAfter (run (map (AddResponse \<circ> Some) [job3, job1]) exampleSink)
   \<and> map_option (\<lambda>sm. Traces (response (fst sm)))
        (snapshotAfter (run (map (AddResponse \<circ> Some) [job3, job1]) exampleSink))
     = Some [\<lparr>TraceID = ''A'', detail = 1\<rparr>, \<lparr>TraceID = ''B'', detail = 2\<rparr>,
             \<lparr>TraceID = ''C'', detail = 1\<rparr>]"
proof -
  have m: "mset [job1, job3] = mset [job3, job1]" by (simp add: add_mset_commute)
  have v: "list_all (valid_call [jobMetrics, jobMetrics])
             (map (AddResponse \<circ> Some) [job1, job3])"
    by (simp add: job1_def job3_def)
  from order_independence
    [of "[job1, job3]" "[job3, job1]" "[jobMetrics, jobMetrics]" None 3 2 2 1000] m v
  have "snapshotAfter (run (map (AddResponse \<circ> Some) [job1, job3]) exampleSink)
     = snapshotAfter (run (map (AddResponse \<circ> Some) [job3, job1]) exampleSink)"
    unfolding exampleSink_def [symmetric] by blast
  moreover have "map_option (\<lambda>sm. Traces (response (fst sm)))
        (snapshotAfter (run (map (AddResponse \<circ> Some) [job3, job1]) exampleSink))
     = Some [\<lparr>TraceID = ''A'', detail = 1\<rparr>, \<lparr>TraceID = ''B'', detail = 2\<rparr>,
             \<lparr>TraceID = ''C'', detail = 1\<rparr>]"
    unfolding example_overlap
    by (simp add: snapshotAfter_def result_def deref_def alloc_def readSnapshot_def Metadata_def)
  ultimately show ?thesis by blast
qed

section \<open>The versioned write\<close>

lemma request_keeps: "request s = (f, s1) \<Longrightarrow> blobs s1 = blobs s \<and> stamp s1 = stamp s"
  by (auto simp: request_def split: list.splits)

lemma request_healthy: "script s = [] \<Longrightarrow> request s = (None, s)"
  by (simp add: request_def)

lemma GetProperties_keeps:
  "GetProperties s name = (r, s1) \<Longrightarrow> blobs s1 = blobs s \<and> stamp s1 = stamp s"
  by (cases "request s")
    (auto simp: GetProperties_def dest!: request_keeps split: option.splits)

lemma DownloadBuffer_keeps:
  "DownloadBuffer s name off n = (r, s1) \<Longrightarrow> blobs s1 = blobs s \<and> stamp s1 = stamp s"
  by (cases "request s")
    (auto simp: DownloadBuffer_def dest!: request_keeps split: option.splits)

lemma readAll_keeps:
  assumes "readAll s name = (r, s1)"
  shows "blobs s1 = blobs s \<and> stamp s1 = stamp s"
proof (cases "GetProperties s name")
  case (Pair g sg)
  note k = GetProperties_keeps [OF Pair]
  show ?thesis
  proof (cases g)
    case (Inl e)
    with assms Pair k show ?thesis by (simp add: readAll_def)
  next
    case (Inr props)
    show ?thesis
    proof (cases "ContentLength props")
      case None
      with assms Pair Inr k show ?thesis by (simp add: readAll_def)
    next
      case (Some n)
      obtain d sd where d: "DownloadBuffer sg name 0 n = (d, sd)"
        by (cases "DownloadBuffer sg name 0 n")
      from DownloadBuffer_keeps [OF d] k have "blobs sd = blobs s \<and> stamp sd = stamp s" by simp
      with assms Pair Inr Some d show ?thesis
        by (cases d) (auto simp: readAll_def)
    qed
  qed
qed

lemma ReadVersioned_keeps:
  assumes "ReadVersioned bk rw s name keypath = (r, s1)"
  shows "blobs s1 = blobs s \<and> stamp s1 = stamp s"
proof -
  obtain b t e sa where a: "readAll s (objectOf bk rw keypath name) = ((b, t, e), sa)"
    by (cases "readAll s (objectOf bk rw keypath name)") auto
  from readAll_keeps [OF a] assms a show ?thesis
    by (cases e) (auto simp: ReadVersioned_def objectOf_def Let_def)
qed

lemma ReadVersioned_healthy:
  assumes "script s = []"
  shows "ReadVersioned bk rw s name keypath =
    (case blobs s (objectOf bk rw keypath name) of
       None \<Rightarrow> ((None, [], Some ErrDoesNotExist), s)
     | Some bl \<Rightarrow> ((Some (content bl), versionOf bl, None), s))"
  using assms
  by (auto simp: ReadVersioned_def readAll_def GetProperties_def DownloadBuffer_def
      request_healthy objectOf_def Let_def readError_def HasCode_def ErrorCodeBlobNotFound_def
      versionOf_def split: option.splits)

lemma WriteVersioned_mismatch:
  assumes "ReadVersioned bk rw s name keypath = ((b, currentVersion, er), s1)"
    and "(errors_Is er ErrDoesNotExist \<and> version \<noteq> VersionNew bk)
         \<or> (er = None \<and> version \<noteq> currentVersion)"
  shows "WriteVersioned bk rw s name keypath src version = (([], Some ErrVersionDoesNotMatch), s1)"
  using assms by (auto simp: WriteVersioned_def errors_Is_def)

lemma WriteVersioned_writes_on_match:
  assumes "ReadVersioned bk rw s name keypath = ((b, currentVersion, er), s1)"
    and "blobs (snd (WriteVersioned bk rw s name keypath src version)) \<noteq> blobs s"
  shows "(errors_Is er ErrDoesNotExist \<and> version = VersionNew bk)
         \<or> (er = None \<and> version = currentVersion)"
proof (rule ccontr)
  assume n: "\<not> ((errors_Is er ErrDoesNotExist \<and> version = VersionNew bk)
         \<or> (er = None \<and> version = currentVersion))"
  from ReadVersioned_keeps [OF assms(1)] have k: "blobs s1 = blobs s" by simp
  have "snd (WriteVersioned bk rw s name keypath src version) = s1"
  proof (cases "er \<noteq> None \<and> \<not> errors_Is er ErrDoesNotExist")
    case True
    with assms(1) show ?thesis by (simp add: WriteVersioned_def)
  next
    case False
    with n assms(1) show ?thesis
      by (cases "errors_Is er ErrDoesNotExist") (auto simp: WriteVersioned_def errors_Is_def)
  qed
  with k assms(2) show False by simp
qed

lemma WriteVersioned_healthy_match:
  assumes "script s = []"
    and "case blobs s (objectOf bk rw keypath name) of
           None \<Rightarrow> version = VersionNew bk | Some bl \<Rightarrow> version = versionOf bl"
  shows "WriteVersioned bk rw s name keypath src version =
    ((etagOf (stamp s), None),
     s\<lparr>blobs := (blobs s)(objectOf bk rw keypath name \<mapsto>
                  \<lparr>content = src, etag = Some (etagOf (stamp s))\<rparr>),
       stamp := Suc (stamp s)\<rparr>)"
proof -
  let ?s' = "s\<lparr>blobs := (blobs s)(objectOf bk rw keypath name \<mapsto>
                  \<lparr>content = src, etag = Some (etagOf (stamp s))\<rparr>),
       stamp := Suc (stamp s)\<rparr>"
  have w: "Write bk rw s name keypath src = (None, ?s')"
    using assms(1)
    by (simp add: Write_def writer_def UploadStream_def request_healthy objectOf_def Let_def)
  have s': "script ?s' = []" using assms(1) by simp
  have r': "ReadVersioned bk rw ?s' name keypath = ((Some src, etagOf (stamp s), None), ?s')"
    by (simp add: ReadVersioned_healthy [OF s'] versionOf_def)
  show ?thesis
  proof (cases "blobs s (objectOf bk rw keypath name)")
    case None
    with assms w r' show ?thesis
      by (simp add: WriteVersioned_def ReadVersioned_healthy [OF assms(1)] errors_Is_def)
  next
    case (Some bl)
    with assms w r' show ?thesis
      by (simp add: WriteVersioned_def ReadVersioned_healthy [OF assms(1)] errors_Is_def)
  qed
qed

lemma example_object:
  "objectOf exampleBackend exampleAzure [''index''] ''meta.json'' = ''tenant/index/meta.json''"
  "objectOf exampleBackend exampleAzure [''index''] ''new.json'' = ''tenant/index/new.json''"
  by (simp_all add: objectOf_def exampleAzure_def exampleBackend_def)

lemma example_read:
  "ReadVersioned exampleBackend exampleAzure exampleContainer ''meta.json'' [''index'']
     = ((Some [1, 2], ''v1'', None), exampleContainer)"
proof -
  have h: "script exampleContainer = []" by (simp add: exampleContainer_def)
  show ?thesis
    unfolding ReadVersioned_healthy [OF h] example_object
    by (simp add: exampleContainer_def versionOf_def)
qed

text \<open>
  C8. \<open>WriteVersioned\<close> reads the object's current version first. When the object does not
  exist and the supplied version is not \<open>VersionNew\<close>, or when it exists and the supplied
  version is not the current one, the call returns \<open>ErrVersionDoesNotMatch\<close> and the blobs
  are as before. The blobs change only when the read found no object and the version is
  \<open>VersionNew\<close>, or found one at the supplied version. With a service that answers every
  request, the call is decided by the stored blob alone: a mismatch leaves the container
  untouched, a match stores the new content under a new ETag and returns that ETag.
\<close>

theorem WriteVersioned_compares_version:
  "(ReadVersioned bk rw s name keypath = ((b, currentVersion, er), s1)
      \<and> ((errors_Is er ErrDoesNotExist \<and> version \<noteq> VersionNew bk)
           \<or> (er = None \<and> version \<noteq> currentVersion))
    \<longrightarrow> WriteVersioned bk rw s name keypath src version = (([], Some ErrVersionDoesNotMatch), s1)
        \<and> blobs s1 = blobs s)
   \<and> (ReadVersioned bk rw s name keypath = ((b, currentVersion, er), s1)
      \<and> blobs (snd (WriteVersioned bk rw s name keypath src version)) \<noteq> blobs s
    \<longrightarrow> (errors_Is er ErrDoesNotExist \<and> version = VersionNew bk)
        \<or> (er = None \<and> version = currentVersion))
   \<and> (script s = [] \<longrightarrow>
        WriteVersioned bk rw s name keypath src version =
          (case blobs s (objectOf bk rw keypath name) of
             None \<Rightarrow>
               if version \<noteq> VersionNew bk then (([], Some ErrVersionDoesNotMatch), s)
               else ((etagOf (stamp s), None),
                     s\<lparr>blobs := (blobs s)(objectOf bk rw keypath name \<mapsto>
                                  \<lparr>content = src, etag = Some (etagOf (stamp s))\<rparr>),
                       stamp := Suc (stamp s)\<rparr>)
           | Some bl \<Rightarrow>
               if version \<noteq> versionOf bl then (([], Some ErrVersionDoesNotMatch), s)
               else ((etagOf (stamp s), None),
                     s\<lparr>blobs := (blobs s)(objectOf bk rw keypath name \<mapsto>
                                  \<lparr>content = src, etag = Some (etagOf (stamp s))\<rparr>),
                       stamp := Suc (stamp s)\<rparr>)))"
proof (intro conjI)
  show "ReadVersioned bk rw s name keypath = ((b, currentVersion, er), s1)
      \<and> ((errors_Is er ErrDoesNotExist \<and> version \<noteq> VersionNew bk)
           \<or> (er = None \<and> version \<noteq> currentVersion))
    \<longrightarrow> WriteVersioned bk rw s name keypath src version = (([], Some ErrVersionDoesNotMatch), s1)
        \<and> blobs s1 = blobs s"
    using WriteVersioned_mismatch [of bk rw s name keypath b currentVersion er s1 version src]
      ReadVersioned_keeps [of bk rw s name keypath "(b, currentVersion, er)" s1]
    by blast
  show "ReadVersioned bk rw s name keypath = ((b, currentVersion, er), s1)
      \<and> blobs (snd (WriteVersioned bk rw s name keypath src version)) \<noteq> blobs s
    \<longrightarrow> (errors_Is er ErrDoesNotExist \<and> version = VersionNew bk)
        \<or> (er = None \<and> version = currentVersion)"
    using WriteVersioned_writes_on_match [of bk rw s name keypath b currentVersion er s1 src version]
    by blast
  show "script s = [] \<longrightarrow>
        WriteVersioned bk rw s name keypath src version =
          (case blobs s (objectOf bk rw keypath name) of
             None \<Rightarrow>
               if version \<noteq> VersionNew bk then (([], Some ErrVersionDoesNotMatch), s)
               else ((etagOf (stamp s), None),
                     s\<lparr>blobs := (blobs s)(objectOf bk rw keypath name \<mapsto>
                                  \<lparr>content = src, etag = Some (etagOf (stamp s))\<rparr>),
                       stamp := Suc (stamp s)\<rparr>)
           | Some bl \<Rightarrow>
               if version \<noteq> versionOf bl then (([], Some ErrVersionDoesNotMatch), s)
               else ((etagOf (stamp s), None),
                     s\<lparr>blobs := (blobs s)(objectOf bk rw keypath name \<mapsto>
                                  \<lparr>content = src, etag = Some (etagOf (stamp s))\<rparr>),
                       stamp := Suc (stamp s)\<rparr>))"
  proof
    assume h: "script s = []"
    show "WriteVersioned bk rw s name keypath src version =
          (case blobs s (objectOf bk rw keypath name) of
             None \<Rightarrow>
               if version \<noteq> VersionNew bk then (([], Some ErrVersionDoesNotMatch), s)
               else ((etagOf (stamp s), None),
                     s\<lparr>blobs := (blobs s)(objectOf bk rw keypath name \<mapsto>
                                  \<lparr>content = src, etag = Some (etagOf (stamp s))\<rparr>),
                       stamp := Suc (stamp s)\<rparr>)
           | Some bl \<Rightarrow>
               if version \<noteq> versionOf bl then (([], Some ErrVersionDoesNotMatch), s)
               else ((etagOf (stamp s), None),
                     s\<lparr>blobs := (blobs s)(objectOf bk rw keypath name \<mapsto>
                                  \<lparr>content = src, etag = Some (etagOf (stamp s))\<rparr>),
                       stamp := Suc (stamp s)\<rparr>))"
    proof (cases "blobs s (objectOf bk rw keypath name)")
      case None
      show ?thesis
      proof (cases "version = VersionNew bk")
        case True
        with None WriteVersioned_healthy_match [OF h, where bk = bk and rw = rw and keypath = keypath and name = name
          and version = version and src = src]
        show ?thesis by simp
      next
        case False
        with None WriteVersioned_mismatch
          [of bk rw s name keypath None "[]" "Some ErrDoesNotExist" s version src]
          ReadVersioned_healthy [OF h, of bk rw name keypath]
        show ?thesis by (simp add: errors_Is_def)
      qed
    next
      case (Some bl)
      show ?thesis
      proof (cases "version = versionOf bl")
        case True
        with Some WriteVersioned_healthy_match [OF h, where bk = bk and rw = rw and keypath = keypath and name = name
          and version = version and src = src]
        show ?thesis by simp
      next
        case False
        with Some WriteVersioned_mismatch
          [of bk rw s name keypath "Some (content bl)" "versionOf bl" None s version src]
          ReadVersioned_healthy [OF h, of bk rw name keypath]
        show ?thesis by simp
      qed
    qed
  qed
qed

theorem WriteVersioned_compares_version_witness:
  "WriteVersioned exampleBackend exampleAzure exampleContainer ''meta.json'' [''index''] [9] ''v0''
     = (([], Some ErrVersionDoesNotMatch), exampleContainer)
   \<and> WriteVersioned exampleBackend exampleAzure exampleContainer ''new.json'' [''index''] [9] ''v1''
     = (([], Some ErrVersionDoesNotMatch), exampleContainer)
   \<and> fst (WriteVersioned exampleBackend exampleAzure exampleContainer ''meta.json'' [''index''] [9] ''v1'')
     = (etagOf 7, None)
   \<and> blobs (snd (WriteVersioned exampleBackend exampleAzure exampleContainer ''meta.json'' [''index''] [9] ''v1''))
       ''tenant/index/meta.json''
     = Some \<lparr>content = [9], etag = Some (etagOf 7)\<rparr>"
proof -
  have h: "script exampleContainer = []" by (simp add: exampleContainer_def)
  have 1: "WriteVersioned exampleBackend exampleAzure exampleContainer ''meta.json'' [''index''] [9] ''v0''
     = (([], Some ErrVersionDoesNotMatch), exampleContainer)"
    using WriteVersioned_compares_version
      [of exampleBackend exampleAzure exampleContainer "''meta.json''" "[''index'']" "Some [1, 2]" "''v1''"
          None exampleContainer "''v0''" "[9]"]
      example_read
    by simp
  have 2: "WriteVersioned exampleBackend exampleAzure exampleContainer ''new.json'' [''index''] [9] ''v1''
     = (([], Some ErrVersionDoesNotMatch), exampleContainer)"
    using WriteVersioned_compares_version
      [of exampleBackend exampleAzure exampleContainer "''new.json''" "[''index'']" None "[]"
          "Some ErrDoesNotExist" exampleContainer "''v1''" "[9]"] h
    unfolding example_object
    by (simp add: exampleContainer_def exampleBackend_def)
  have 3: "WriteVersioned exampleBackend exampleAzure exampleContainer ''meta.json'' [''index''] [9] ''v1''
     = ((etagOf 7, None),
        exampleContainer\<lparr>blobs := (blobs exampleContainer)(''tenant/index/meta.json'' \<mapsto>
                                  \<lparr>content = [9], etag = Some (etagOf 7)\<rparr>),
                         stamp := 8\<rparr>)"
    using WriteVersioned_compares_version
      [of exampleBackend exampleAzure exampleContainer "''meta.json''" "[''index'']" "Some [1, 2]" "''v1''"
          None exampleContainer "''v1''" "[9]"] h
    unfolding example_object
    by (simp add: exampleContainer_def versionOf_def)
  from 1 2 3 show ?thesis by simp
qed

end
